theory Spec2Isabelle
  imports Main
begin

section \<open>The worker supervisor: data model\<close>

text \<open>
  The supervisor keeps one module-level \<open>Map\<close> from agent id to the handle of the
  child process it spawned for that agent. All of its code runs on the single
  JavaScript thread, so every function body between two \<open>await\<close>s is one atomic
  step on the state below.
\<close>

type_synonym env = "string \<rightharpoonup> string"

text \<open>
  A \<open>ChildProcess\<close> object. \<open>handle\<close> is the identity of the object (a fresh
  number for every call of \<open>spawn\<close>); the other fields are what \<open>spawn\<close> was
  called with.
\<close>

record child =
  handle :: nat
  spawnfile :: string
  spawnargs :: "string list"
  child_env :: env

datatype level = Info | Warn | Error | Fatal

text \<open>A pino log line: level, message, and the \<open>agentId\<close> field when there is one.\<close>

datatype log_entry = Log level string "string option"

datatype exn = FetchFailed | HttpStatus nat | JsonInvalid | TypeError | SpawnFailed

text \<open>How a function body ended: by returning, or by throwing.\<close>

datatype completion = Normal | Thrown exn

text \<open>
  \<open>processes\<close> is the \<open>Map\<close> of line 20, as the list of its entries in
  insertion order. The remaining fields record the effects the code has on the
  outside: the log, every child created by \<open>spawn\<close>, every signal sent by
  \<open>child.kill\<close> (handle and signal name), and every \<open>'exit'\<close> listener
  registered by \<open>child.on\<close> (the handle it listens on and the \<open>agentId\<close> its
  closure captured).
\<close>

record supervisor =
  processes :: "(string \<times> child) list"
  logs :: "log_entry list"
  spawned :: "child list"
  signals :: "(nat \<times> string) list"
  exit_observers :: "(nat \<times> string) list"

text \<open>
  What the module reads from its own environment at start. (It exits at once when
  \<open>CONVEX_URL\<close> or \<open>DISCORD_BACKEND_KEY\<close> is missing, lines 9-14; all that follows
  is a supervisor that got past that check.)
\<close>

record settings =
  is_prod :: bool
  parent_env :: env

text \<open>
  The operating system's answer to a \<open>spawn\<close> call, by command, arguments and
  environment: \<open>True\<close> when \<open>spawn\<close> returns a child object, \<open>False\<close> when it
  throws.
\<close>

type_synonym os = "string \<Rightarrow> string list \<Rightarrow> env \<Rightarrow> bool"

definition init :: supervisor where
  "init = \<lparr>processes = [], logs = [], spawned = [], signals = [], exit_observers = []\<rparr>"

subsection \<open>The operations of \<open>Map\<close> that the code uses\<close>

definition map_has :: "string \<Rightarrow> (string \<times> child) list \<Rightarrow> bool" where
  "map_has k m = (map_of m k \<noteq> None)"

text \<open>\<open>Map.set\<close> replaces the value of a present key in place and appends a new key.\<close>

fun map_set :: "string \<Rightarrow> child \<Rightarrow> (string \<times> child) list \<Rightarrow> (string \<times> child) list" where
  "map_set k v [] = [(k, v)]"
| "map_set k v ((k', v') # m) = (if k' = k then (k, v) # m else (k', v') # map_set k v m)"

definition map_delete :: "string \<Rightarrow> (string \<times> child) list \<Rightarrow> (string \<times> child) list" where
  "map_delete k m = filter (\<lambda>e. fst e \<noteq> k) m"

definition map_keys :: "(string \<times> child) list \<Rightarrow> string list" where
  "map_keys m = map fst m"

subsection \<open>Logging\<close>

definition log_line :: "level \<Rightarrow> string \<Rightarrow> string option \<Rightarrow> supervisor \<Rightarrow> supervisor" where
  "log_line l msg a st = st\<lparr>logs := logs st @ [Log l msg a]\<rparr>"

section \<open>The process launcher\<close>

definition spawn_cmd :: "settings \<Rightarrow> string" where
  "spawn_cmd cfg = (if is_prod cfg then ''node'' else ''tsx'')"

definition spawn_args :: "settings \<Rightarrow> string list" where
  "spawn_args cfg = (if is_prod cfg then [''dist/index.js''] else [''watch'', ''src/index.ts''])"

text \<open>Lines 44-50: the parent's environment, spread first, then the three overrides.\<close>

definition bot_env :: "settings \<Rightarrow> string \<Rightarrow> string \<Rightarrow> env" where
  "bot_env cfg agentId clientId =
     (parent_env cfg)(''AGENT_ID'' \<mapsto> agentId, ''DISCORD_CLIENT_ID'' \<mapsto> clientId,
                      ''DISCORD_TOKEN'' \<mapsto> '''')"

text \<open>
  \<open>spawn(cmd, args, {env, stdio: 'pipe'})\<close>: either throws, or creates a new child
  object and returns it.
\<close>

definition new_child :: "string \<Rightarrow> string list \<Rightarrow> env \<Rightarrow> supervisor \<Rightarrow> child" where
  "new_child cmd args e st =
     \<lparr>handle = length (spawned st), spawnfile = cmd, spawnargs = args, child_env = e\<rparr>"

definition spawn :: "os \<Rightarrow> string \<Rightarrow> string list \<Rightarrow> env \<Rightarrow> supervisor \<Rightarrow> exn + child \<times> supervisor" where
  "spawn sys cmd args e st =
     (if sys cmd args e
      then (let c = new_child cmd args e st in Inr (c, st\<lparr>spawned := spawned st @ [c]\<rparr>))
      else Inl SpawnFailed)"

text \<open>
  \<open>spawnBot\<close>, lines 42-63. Nothing in it catches, so a throwing \<open>spawn\<close> ends it
  with the state as it was. The two \<open>'data'\<close> listeners only copy the child's
  output to the supervisor's and are left out.
\<close>

definition spawnBot :: "settings \<Rightarrow> os \<Rightarrow> string \<Rightarrow> string \<Rightarrow> supervisor \<Rightarrow> completion \<times> supervisor" where
  "spawnBot cfg sys agentId clientId st =
     (if map_has agentId (processes st) then (Normal, st)
      else
        (case spawn sys (spawn_cmd cfg) (spawn_args cfg) (bot_env cfg agentId clientId) st of
           Inl e \<Rightarrow> (Thrown e, st)
         | Inr (c, st1) \<Rightarrow>
             (let st2 = st1\<lparr>processes := map_set agentId c (processes st1)\<rparr>;
                  st3 = log_line Info ''Spawned Discord bot process'' (Some agentId) st2;
                  st4 = st3\<lparr>exit_observers := exit_observers st3 @ [(handle c, agentId)]\<rparr>
              in (Normal, st4))))"

text \<open>The listener of lines 59-62, with the \<open>agentId\<close> of its closure.\<close>

definition on_exit :: "string \<Rightarrow> supervisor \<Rightarrow> supervisor" where
  "on_exit agentId st =
     (let st1 = log_line Warn ''Bot process exited'' (Some agentId) st
      in st1\<lparr>processes := map_delete agentId (processes st1)\<rparr>)"

text \<open>
  The child with handle \<open>h\<close> emits \<open>'exit'\<close>: every listener registered on that
  child runs, in registration order.
\<close>

definition child_exit :: "nat \<Rightarrow> supervisor \<Rightarrow> supervisor" where
  "child_exit h st =
     fold on_exit (map snd (filter (\<lambda>ob. fst ob = h) (exit_observers st))) st"

section \<open>The config source client\<close>

text \<open>
  A value produced by \<open>JSON.parse\<close>, or \<open>undefined\<close> (what reading a missing
  property gives). A number is kept as the string that ECMAScript's
  number-to-string conversion prints for it, which is all this code can see of it.
  An object is the list of its own properties, each key once.
\<close>

datatype jsval =
  JUndefined | JNull | JBool bool | JNum string | JStr string
  | JArr "jsval list" | JObj "(string \<times> jsval) list"

text \<open>
  \<open>v.k\<close> for a key that no built-in prototype defines (\<open>value\<close>, \<open>agentId\<close>,
  \<open>clientId\<close>): a \<open>TypeError\<close> on \<open>null\<close> and \<open>undefined\<close>, the own property of
  an object, and \<open>undefined\<close> everywhere else.
\<close>

fun get_prop :: "jsval \<Rightarrow> string \<Rightarrow> exn + jsval" where
  "get_prop JUndefined k = Inl TypeError"
| "get_prop JNull k = Inl TypeError"
| "get_prop (JObj kvs) k = Inr (case map_of kvs k of None \<Rightarrow> JUndefined | Some v \<Rightarrow> v)"
| "get_prop v k = Inr JUndefined"

definition nullish :: "jsval \<Rightarrow> bool" where
  "nullish v = (v = JUndefined \<or> v = JNull)"

fun truthy :: "jsval \<Rightarrow> bool" where
  "truthy JUndefined = False"
| "truthy JNull = False"
| "truthy (JBool b) = b"
| "truthy (JNum n) = (n \<noteq> ''0'' \<and> n \<noteq> ''NaN'')"
| "truthy (JStr s) = (s \<noteq> [])"
| "truthy (JArr xs) = True"
| "truthy (JObj kvs) = True"

text \<open>
  \<open>String(v)\<close>. An array prints its elements joined by commas, \<open>null\<close> and
  \<open>undefined\<close> elements as nothing. A parsed object has no callable property of its
  own, so one that has an own \<open>toString\<close> cannot be converted, and every other one
  prints as \<open>[object Object]\<close>.
\<close>

fun js_String :: "jsval \<Rightarrow> exn + string"
  and js_join :: "jsval list \<Rightarrow> exn + string" where
  "js_String JUndefined = Inr ''undefined''"
| "js_String JNull = Inr ''null''"
| "js_String (JBool b) = Inr (if b then ''true'' else ''false'')"
| "js_String (JNum n) = Inr n"
| "js_String (JStr s) = Inr s"
| "js_String (JArr xs) = js_join xs"
| "js_String (JObj kvs) =
     (if map_of kvs ''toString'' \<noteq> None then Inl TypeError else Inr ''[object Object]'')"
| "js_join [] = Inr []"
| "js_join (x # xs) =
     (case (if x = JUndefined \<or> x = JNull then Inr [] else js_String x) of
        Inl e \<Rightarrow> Inl e
      | Inr s \<Rightarrow>
          (if xs = [] then Inr s
           else (case js_join xs of Inl e \<Rightarrow> Inl e | Inr t \<Rightarrow> Inr (s @ '','' @ t))))"

text \<open>A fetched configuration, \<open>{agentId, clientId}\<close>.\<close>

record config =
  agentId :: string
  clientId :: string

text \<open>The callback of \<open>map\<close> on line 35, for one element.\<close>

definition to_config :: "jsval \<Rightarrow> exn + config" where
  "to_config c =
     (case get_prop c ''agentId'' of
        Inl e \<Rightarrow> Inl e
      | Inr a \<Rightarrow>
          (case js_String a of
             Inl e \<Rightarrow> Inl e
           | Inr sa \<Rightarrow>
               (case get_prop c ''clientId'' of
                  Inl e \<Rightarrow> Inl e
                | Inr b \<Rightarrow>
                    (case js_String b of
                       Inl e \<Rightarrow> Inl e
                     | Inr sb \<Rightarrow> Inr \<lparr>agentId = sa, clientId = sb\<rparr>))))"

fun to_configs :: "jsval list \<Rightarrow> exn + config list" where
  "to_configs [] = Inr []"
| "to_configs (c # cs) =
     (case to_config c of
        Inl e \<Rightarrow> Inl e
      | Inr r \<Rightarrow> (case to_configs cs of Inl e \<Rightarrow> Inl e | Inr rs \<Rightarrow> Inr (r # rs)))"

text \<open>Line 34: \<open>data?.value ?? data\<close>.\<close>

definition fetched_list :: "jsval \<Rightarrow> jsval" where
  "fetched_list data =
     (let v = (if nullish data then JUndefined
               else (case get_prop data ''value'' of Inl e \<Rightarrow> JUndefined | Inr w \<Rightarrow> w))
      in if nullish v then data else v)"

text \<open>
  Line 35: \<open>(list || []).map(...)\<close>. A truthy value that is not an array has no
  callable \<open>map\<close>, and calling it is a \<open>TypeError\<close>.
\<close>

definition decode :: "jsval \<Rightarrow> exn + config list" where
  "decode data =
     (let list = fetched_list data
      in if \<not> truthy list then Inr []
         else (case list of JArr xs \<Rightarrow> to_configs xs | _ \<Rightarrow> Inl TypeError))"

text \<open>
  What the request of line 24 comes back with: the promise rejects, or there is a
  response with a status and a body, \<open>None\<close> for a body that is not JSON.
\<close>

datatype fetch_outcome = Rejected | Response nat "jsval option"

definition resp_ok :: "nat \<Rightarrow> bool" where
  "resp_ok status = (200 \<le> status \<and> status \<le> 299)"

text \<open>The \<open>try\<close> block of lines 24-35.\<close>

definition fetch_body :: "fetch_outcome \<Rightarrow> exn + config list" where
  "fetch_body out =
     (case out of
        Rejected \<Rightarrow> Inl FetchFailed
      | Response status body \<Rightarrow>
          if \<not> resp_ok status then Inl (HttpStatus status)
          else (case body of None \<Rightarrow> Inl JsonInvalid | Some data \<Rightarrow> decode data))"

text \<open>
  \<open>fetchActiveConfigs\<close>, lines 22-40: the \<open>try\<close> block and its \<open>catch\<close>. The first
  component is what the caller's \<open>await\<close> gets: the returned list, or an exception.
\<close>

definition fetchActiveConfigs ::
  "fetch_outcome \<Rightarrow> supervisor \<Rightarrow> (exn + config list) \<times> supervisor" where
  "fetchActiveConfigs out st =
     (case fetch_body out of
        Inl e \<Rightarrow>
          (Inr [], log_line Error ''Failed to fetch active Discord configs from Convex'' None st)
      | Inr configs \<Rightarrow> (Inr configs, st))"

section \<open>The reconciler\<close>

text \<open>
  \<open>stopMissing\<close>, lines 65-73. The loop deletes only the entry it is visiting, and a
  \<open>Map\<close> iterator is not disturbed by that, so it visits each entry the \<open>Map\<close> had
  when the loop began, once, in insertion order.
\<close>

fun stopMissing_loop :: "string set \<Rightarrow> (string \<times> child) list \<Rightarrow> supervisor \<Rightarrow> supervisor" where
  "stopMissing_loop desired [] st = st"
| "stopMissing_loop desired ((aid, c) # es) st =
     (if aid \<notin> desired
      then (let st1 = log_line Info ''Stopping bot (no longer active)'' (Some aid) st;
                st2 = st1\<lparr>signals := signals st1 @ [(handle c, ''SIGTERM'')]\<rparr>;
                st3 = st2\<lparr>processes := map_delete aid (processes st2)\<rparr>
            in stopMissing_loop desired es st3)
      else stopMissing_loop desired es st)"

definition stopMissing :: "string set \<Rightarrow> supervisor \<Rightarrow> supervisor" where
  "stopMissing desired st = stopMissing_loop desired (processes st) st"

text \<open>
  The \<open>for\<close> loop of lines 78-81, with the set \<open>desired\<close> built so far. An
  exception of \<open>spawnBot\<close> leaves the loop.
\<close>

fun reconcile_loop ::
  "settings \<Rightarrow> os \<Rightarrow> config list \<Rightarrow> string set \<Rightarrow> supervisor \<Rightarrow> completion \<times> string set \<times> supervisor" where
  "reconcile_loop cfg sys [] desired st = (Normal, desired, st)"
| "reconcile_loop cfg sys (c # cs) desired st =
     (case spawnBot cfg sys (agentId c) (clientId c) st of
        (Thrown e, st1) \<Rightarrow> (Thrown e, insert (agentId c) desired, st1)
      | (Normal, st1) \<Rightarrow> reconcile_loop cfg sys cs (insert (agentId c) desired) st1)"

text \<open>Lines 77-82: what \<open>reconcile\<close> does once the fetch has delivered \<open>configs\<close>.\<close>

definition reconcile_with :: "settings \<Rightarrow> os \<Rightarrow> config list \<Rightarrow> supervisor \<Rightarrow> completion \<times> supervisor" where
  "reconcile_with cfg sys configs st =
     (case reconcile_loop cfg sys configs {} st of
        (Thrown e, desired, st1) \<Rightarrow> (Thrown e, st1)
      | (Normal, desired, st1) \<Rightarrow> (Normal, stopMissing desired st1))"

text \<open>\<open>reconcile\<close>, lines 75-83, for a given outcome of the request.\<close>

definition reconcile :: "settings \<Rightarrow> os \<Rightarrow> fetch_outcome \<Rightarrow> supervisor \<Rightarrow> completion \<times> supervisor" where
  "reconcile cfg sys out st =
     (case fetchActiveConfigs out st of
        (Inl e, st1) \<Rightarrow> (Thrown e, st1)
      | (Inr configs, st1) \<Rightarrow> reconcile_with cfg sys configs st1)"

text \<open>
  A pass started by the timer of line 89: nobody awaits its promise, so a rejection
  goes to the \<open>unhandledRejection\<close> handler of line 104, which logs it.
\<close>

definition interval_tick :: "settings \<Rightarrow> os \<Rightarrow> fetch_outcome \<Rightarrow> supervisor \<Rightarrow> supervisor" where
  "interval_tick cfg sys out st =
     (case reconcile cfg sys out st of
        (Normal, st1) \<Rightarrow> st1
      | (Thrown e, st1) \<Rightarrow> log_line Error ''UnhandledRejection'' None st1)"

text \<open>
  The first pass, awaited by \<open>main\<close> on line 87: a rejection rejects \<open>main\<close>, whose
  \<open>catch\<close> (lines 107-110) logs and exits with code 1. The second component is the
  exit code, \<open>None\<close> while the supervisor keeps running.
\<close>

definition main_start :: "settings \<Rightarrow> os \<Rightarrow> fetch_outcome \<Rightarrow> supervisor \<times> nat option" where
  "main_start cfg sys out =
     (case reconcile cfg sys out (log_line Info ''Starting Discord supervisor'' None init) of
        (Normal, st1) \<Rightarrow> (st1, None)
      | (Thrown e, st1) \<Rightarrow> (log_line Fatal ''Supervisor crashed'' None st1, Some 1))"

text \<open>
  A child emits \<open>'error'\<close> (this is how \<open>spawn\<close> reports a command that could not be
  started after it has returned the child object). \<open>spawnBot\<close> registers no
  \<open>'error'\<close> listener, so the event becomes an uncaught exception, which the handler
  of line 105 logs.
\<close>

definition child_error :: "nat \<Rightarrow> supervisor \<Rightarrow> supervisor" where
  "child_error h st = log_line Error ''UncaughtException'' None st"

section \<open>The liveness reporter\<close>

record response =
  status :: nat
  content_type :: string
  body :: jsval

text \<open>What the handler is given of the incoming request; it reads none of it.\<close>

record request =
  req_method :: string
  req_url :: string

text \<open>
  The request handler of lines 93-96. \<open>body\<close> is the value handed to
  \<open>JSON.stringify\<close>.
\<close>

definition healthcheck :: "request \<Rightarrow> supervisor \<Rightarrow> response \<times> supervisor" where
  "healthcheck req st =
     (\<lparr>status = 200, content_type = ''application/json'',
       body = JObj [(''ok'', JBool True),
                    (''processes'', JArr (map JStr (map_keys (processes st))))]\<rparr>, st)"

section \<open>The worker's side of the environment\<close>

text \<open>
  \<open>String.prototype.trim\<close>. A character here is a code unit below 256, and these
  seven are all the white space and line terminators of ECMAScript in that range
  (tab, line feed, vertical tab, form feed, carriage return, space, no-break space);
  the others that \<open>trim\<close> strips (U+FEFF, U+2028 and the rest) lie above it.
\<close>

definition is_space :: "char \<Rightarrow> bool" where
  "is_space c =
     (c \<in> {CHR 0x09, CHR 0x0A, CHR 0x0B, CHR 0x0C, CHR 0x0D, CHR '' '', CHR 0xA0})"

definition trim :: "string \<Rightarrow> string" where
  "trim s = rev (dropWhile is_space (rev (dropWhile is_space s)))"

text \<open>
  The first two lines of \<open>resolveToken\<close> in the worker (\<open>index.ts\<close>, lines 13-14):
  the token taken from the environment, \<open>None\<close> when the worker goes on to ask the
  remote source.
\<close>

definition direct_token :: "env \<Rightarrow> string option" where
  "direct_token e =
     (case e ''DISCORD_TOKEN'' of
        None \<Rightarrow> None
      | Some direct \<Rightarrow> if direct \<noteq> [] \<and> length (trim direct) > 0 then Some direct else None)"

section \<open>Example runs\<close>

text \<open>
  A development setup whose own environment holds a token, an operating system on
  which every \<open>spawn\<close> returns, and a well-formed answer of the remote source that
  lists the given agents, each with its client id.
\<close>

definition cfg_dev :: settings where
  "cfg_dev = \<lparr>is_prod = False,
              parent_env = [''PATH'' \<mapsto> ''/usr/bin'', ''DISCORD_TOKEN'' \<mapsto> ''parent-secret'']\<rparr>"

definition os_ok :: os where
  "os_ok cmd args e = True"

definition listing :: "(string \<times> string) list \<Rightarrow> fetch_outcome" where
  "listing ps =
     Response 200 (Some (JObj [(''value'',
       JArr (map (\<lambda>p. JObj [(''agentId'', JStr (fst p)), (''clientId'', JStr (snd p))]) ps))]))"

text \<open>The scenario of two passes: first \<open>A\<close> and \<open>B\<close> are desired, then \<open>B\<close> and \<open>C\<close>.\<close>

definition run1 :: supervisor where
  "run1 = interval_tick cfg_dev os_ok (listing [(''A'', ''1''), (''B'', ''2'')]) init"

definition run2 :: supervisor where
  "run2 = interval_tick cfg_dev os_ok (listing [(''B'', ''2''), (''C'', ''3'')]) run1"

text \<open>
  \<open>A\<close> is started, dropped by the next answer, and desired again in the third pass,
  all before the first child has reported its exit.
\<close>

definition relaunched :: supervisor where
  "relaunched =
     interval_tick cfg_dev os_ok (listing [(''A'', ''1'')])
       (interval_tick cfg_dev os_ok (listing [])
         (interval_tick cfg_dev os_ok (listing [(''A'', ''1'')]) init))"

text \<open>An operating system on which \<open>spawn\<close> throws for agent \<open>A\<close> and for no other.\<close>

definition os_no_A :: os where
  "os_no_A cmd args e = (e ''AGENT_ID'' \<noteq> Some ''A'')"

section \<open>Properties\<close>

subsection \<open>The \<open>Map\<close> operations\<close>

lemma map_has_keys: "map_has k m \<longleftrightarrow> k \<in> set (map_keys m)"
  by (simp add: map_has_def map_keys_def map_of_eq_None_iff)

lemma map_set_absent: "\<not> map_has k m \<Longrightarrow> map_set k v m = m @ [(k, v)]"
  by (induction m) (auto simp: map_has_def)

lemma map_of_map_set: "map_of (map_set k v m) = (map_of m)(k \<mapsto> v)"
  by (induction m) auto

lemma map_of_map_delete: "map_of (map_delete k m) = (map_of m)(k := None)"
  by (induction m) (auto simp: map_delete_def)

lemma map_keys_map_delete: "set (map_keys (map_delete k m)) = set (map_keys m) - {k}"
  by (auto simp: map_delete_def map_keys_def)

lemma map_has_map_delete: "\<not> map_has k (map_delete k m)"
  by (simp add: map_has_def map_of_map_delete)

lemma map_delete_absent: "\<not> map_has k m \<Longrightarrow> map_delete k m = m"
  by (induction m) (auto simp: map_delete_def map_has_def)

lemma map_keys_map_set: "set (map_keys (map_set k v m)) = insert k (set (map_keys m))"
proof -
  have "set (map_keys (map_set k v m)) = dom (map_of (map_set k v m))"
    by (simp add: map_keys_def dom_map_of_conv_image_fst)
  also have "\<dots> = insert k (dom (map_of m))"
    by (simp add: map_of_map_set)
  also have "\<dots> = insert k (set (map_keys m))"
    by (simp add: map_keys_def dom_map_of_conv_image_fst)
  finally show ?thesis .
qed

lemma distinct_map_set: "distinct (map_keys m) \<Longrightarrow> distinct (map_keys (map_set k v m))"
proof (induction m)
  case Nil
  then show ?case by (simp add: map_keys_def)
next
  case (Cons e m)
  have ks: "set (map fst (map_set k v m)) = insert k (set (map fst m))"
    using map_keys_map_set [of k v m] by (simp add: map_keys_def)
  from Cons show ?case
    by (cases e) (auto simp: map_keys_def ks simp del: set_map)
qed

lemma distinct_map_delete: "distinct (map_keys m) \<Longrightarrow> distinct (map_keys (map_delete k m))"
  by (simp add: map_delete_def map_keys_def distinct_map_filter)

subsection \<open>The launcher\<close>

lemma spawnBot_present: "map_has a (processes st) \<Longrightarrow> spawnBot cfg sys a cid st = (Normal, st)"
  by (simp add: spawnBot_def)

lemma spawnBot_absent_throws:
  "\<not> map_has a (processes st) \<Longrightarrow> \<not> sys (spawn_cmd cfg) (spawn_args cfg) (bot_env cfg a cid) \<Longrightarrow>
   spawnBot cfg sys a cid st = (Thrown SpawnFailed, st)"
  by (simp add: spawnBot_def spawn_def)

text \<open>The child that a successful \<open>spawnBot\<close> creates in state \<open>st\<close>.\<close>

lemma spawnBot_absent_returns:
  assumes "\<not> map_has a (processes st)"
    and "sys (spawn_cmd cfg) (spawn_args cfg) (bot_env cfg a cid)"
  shows "spawnBot cfg sys a cid st =
           (Normal,
            st\<lparr>processes := processes st @ [(a, new_child (spawn_cmd cfg) (spawn_args cfg) (bot_env cfg a cid) st)],
               logs := logs st @ [Log Info ''Spawned Discord bot process'' (Some a)],
               spawned := spawned st @ [new_child (spawn_cmd cfg) (spawn_args cfg) (bot_env cfg a cid) st],
               exit_observers := exit_observers st @ [(length (spawned st), a)]\<rparr>)"
  using assms
  by (simp add: spawnBot_def spawn_def Let_def log_line_def map_set_absent new_child_def)

subsection \<open>The loops of a pass\<close>

text \<open>
  When every \<open>spawn\<close> returns, the \<open>for\<close> loop appends one entry per identity that
  was not running, and touches nothing else.
\<close>

lemma reconcile_loop_returns:
  assumes "\<forall>c\<in>set cs. sys (spawn_cmd cfg) (spawn_args cfg) (bot_env cfg (agentId c) (clientId c))"
  shows "\<exists>es. reconcile_loop cfg sys cs D st =
            (Normal, D \<union> agentId ` set cs,
             st\<lparr>processes := processes st @ es,
                logs := logs st @ map (\<lambda>e. Log Info ''Spawned Discord bot process'' (Some (fst e))) es,
                spawned := spawned st @ map snd es,
                exit_observers := exit_observers st @ map (\<lambda>e. (handle (snd e), fst e)) es\<rparr>)
          \<and> distinct (map fst es)
          \<and> set (map fst es) = agentId ` set cs - set (map_keys (processes st))
          \<and> (\<forall>e\<in>set es. \<exists>c\<in>set cs. agentId c = fst e \<and>
                 child_env (snd e) = bot_env cfg (fst e) (clientId c))"
  using assms
proof (induction cs arbitrary: D st)
  case Nil
  show ?case by (rule exI [of _ "[]"]) simp
next
  case (Cons c cs)
  let ?a = "agentId c"
  from Cons.prems have rest: "\<forall>c\<in>set cs. sys (spawn_cmd cfg) (spawn_args cfg) (bot_env cfg (agentId c) (clientId c))"
    by simp
  show ?case
  proof (cases "map_has ?a (processes st)")
    case True
    from Cons.IH [OF rest, of "insert ?a D" st] obtain es where
      run: "reconcile_loop cfg sys cs (insert ?a D) st =
            (Normal, insert ?a D \<union> agentId ` set cs,
             st\<lparr>processes := processes st @ es,
                logs := logs st @ map (\<lambda>e. Log Info ''Spawned Discord bot process'' (Some (fst e))) es,
                spawned := spawned st @ map snd es,
                exit_observers := exit_observers st @ map (\<lambda>e. (handle (snd e), fst e)) es\<rparr>)"
      and dist: "distinct (map fst es)"
      and keys: "set (map fst es) = agentId ` set cs - set (map_keys (processes st))"
      and envs: "\<forall>e\<in>set es. \<exists>c\<in>set cs. agentId c = fst e \<and>
                   child_env (snd e) = bot_env cfg (fst e) (clientId c)"
      by blast
    from True have mem: "?a \<in> set (map_keys (processes st))"
      by (simp add: map_has_keys)
    have "reconcile_loop cfg sys (c # cs) D st =
            (Normal, D \<union> agentId ` set (c # cs),
             st\<lparr>processes := processes st @ es,
                logs := logs st @ map (\<lambda>e. Log Info ''Spawned Discord bot process'' (Some (fst e))) es,
                spawned := spawned st @ map snd es,
                exit_observers := exit_observers st @ map (\<lambda>e. (handle (snd e), fst e)) es\<rparr>)"
      using True run by (simp add: spawnBot_present)
    moreover have "set (map fst es) = agentId ` set (c # cs) - set (map_keys (processes st))"
      using keys mem by auto
    moreover have "\<forall>e\<in>set es. \<exists>c'\<in>set (c # cs). agentId c' = fst e \<and>
                     child_env (snd e) = bot_env cfg (fst e) (clientId c')"
      using envs by auto
    ultimately show ?thesis using dist by blast
  next
    case False
    let ?n = "new_child (spawn_cmd cfg) (spawn_args cfg) (bot_env cfg ?a (clientId c)) st"
    let ?st1 = "st\<lparr>processes := processes st @ [(?a, ?n)],
                   logs := logs st @ [Log Info ''Spawned Discord bot process'' (Some ?a)],
                   spawned := spawned st @ [?n],
                   exit_observers := exit_observers st @ [(length (spawned st), ?a)]\<rparr>"
    from Cons.prems have ok: "sys (spawn_cmd cfg) (spawn_args cfg) (bot_env cfg ?a (clientId c))"
      by simp
    have step: "spawnBot cfg sys ?a (clientId c) st = (Normal, ?st1)"
      using spawnBot_absent_returns [of ?a st sys cfg "clientId c"] False ok by simp
    from Cons.IH [OF rest, of "insert ?a D" ?st1] obtain es where
      run: "reconcile_loop cfg sys cs (insert ?a D) ?st1 =
            (Normal, insert ?a D \<union> agentId ` set cs,
             ?st1\<lparr>processes := processes ?st1 @ es,
                logs := logs ?st1 @ map (\<lambda>e. Log Info ''Spawned Discord bot process'' (Some (fst e))) es,
                spawned := spawned ?st1 @ map snd es,
                exit_observers := exit_observers ?st1 @ map (\<lambda>e. (handle (snd e), fst e)) es\<rparr>)"
      and dist: "distinct (map fst es)"
      and keys: "set (map fst es) = agentId ` set cs - set (map_keys (processes ?st1))"
      and envs: "\<forall>e\<in>set es. \<exists>c\<in>set cs. agentId c = fst e \<and>
                   child_env (snd e) = bot_env cfg (fst e) (clientId c)"
      by blast
    let ?es = "(?a, ?n) # es"
    from False have notin: "?a \<notin> set (map_keys (processes st))"
      by (simp add: map_has_keys)
    have "reconcile_loop cfg sys (c # cs) D st =
            (Normal, D \<union> agentId ` set (c # cs),
             st\<lparr>processes := processes st @ ?es,
                logs := logs st @ map (\<lambda>e. Log Info ''Spawned Discord bot process'' (Some (fst e))) ?es,
                spawned := spawned st @ map snd ?es,
                exit_observers := exit_observers st @ map (\<lambda>e. (handle (snd e), fst e)) ?es\<rparr>)"
      using step run by (simp add: new_child_def)
    moreover have "distinct (map fst ?es)"
      using dist keys by (auto simp: map_keys_def)
    moreover have "set (map fst ?es) = agentId ` set (c # cs) - set (map_keys (processes st))"
      using keys notin by (auto simp: map_keys_def)
    moreover have "\<forall>e\<in>set ?es. \<exists>c'\<in>set (c # cs). agentId c' = fst e \<and>
                     child_env (snd e) = bot_env cfg (fst e) (clientId c')"
      using envs by (auto simp: new_child_def)
    ultimately show ?thesis by blast
  qed
qed

text \<open>
  \<open>stopMissing\<close> signals and deletes the entries it visits whose key is not
  desired, and nothing else.
\<close>

lemma stopMissing_loop_effect:
  "stopMissing_loop D es st =
     st\<lparr>processes := filter (\<lambda>e. \<not> (fst e \<in> fst ` set es \<and> fst e \<notin> D)) (processes st),
        logs := logs st @ map (\<lambda>e. Log Info ''Stopping bot (no longer active)'' (Some (fst e)))
                            (filter (\<lambda>e. fst e \<notin> D) es),
        signals := signals st @ map (\<lambda>e. (handle (snd e), ''SIGTERM''))
                                  (filter (\<lambda>e. fst e \<notin> D) es)\<rparr>"
proof (induction es arbitrary: st)
  case Nil
  show ?case by simp
next
  case (Cons e es)
  obtain a c where e: "e = (a, c)" by (cases e)
  show ?case
  proof (cases "a \<in> D")
    case True
    have "filter (\<lambda>x. \<not> (fst x \<in> fst ` set (e # es) \<and> fst x \<notin> D)) (processes st) =
          filter (\<lambda>x. \<not> (fst x \<in> fst ` set es \<and> fst x \<notin> D)) (processes st)"
      using True e by (intro filter_cong) auto
    with True e Cons.IH [of st] show ?thesis by simp
  next
    case False
    have "filter (\<lambda>x. \<not> (fst x \<in> fst ` set es \<and> fst x \<notin> D)) (map_delete a (processes st)) =
          filter (\<lambda>x. \<not> (fst x \<in> fst ` set (e # es) \<and> fst x \<notin> D)) (processes st)"
      using False e unfolding map_delete_def filter_filter by (intro filter_cong) auto
    with False e show ?thesis
      by (simp add: Cons.IH Let_def log_line_def)
  qed
qed

lemma stopMissing_effect:
  "stopMissing D st =
     st\<lparr>processes := filter (\<lambda>e. fst e \<in> D) (processes st),
        logs := logs st @ map (\<lambda>e. Log Info ''Stopping bot (no longer active)'' (Some (fst e)))
                            (filter (\<lambda>e. fst e \<notin> D) (processes st)),
        signals := signals st @ map (\<lambda>e. (handle (snd e), ''SIGTERM''))
                                  (filter (\<lambda>e. fst e \<notin> D) (processes st))\<rparr>"
proof -
  have "filter (\<lambda>e. \<not> (fst e \<in> fst ` set (processes st) \<and> fst e \<notin> D)) (processes st) =
        filter (\<lambda>e. fst e \<in> D) (processes st)"
    by (intro filter_cong) auto
  then show ?thesis by (simp add: stopMissing_def stopMissing_loop_effect)
qed

lemma reconcile_loop_all_present:
  "\<forall>c\<in>set cs. map_has (agentId c) (processes st) \<Longrightarrow>
   reconcile_loop cfg sys cs D st = (Normal, D \<union> agentId ` set cs, st)"
  by (induction cs arbitrary: D) (simp_all add: spawnBot_present)

lemma map_of_filter_key:
  "map_of (filter (\<lambda>e. fst e \<in> S) m) k = (if k \<in> S then map_of m k else None)"
  by (induction m) auto

lemma map_keys_filter_key:
  "set (map_keys (filter (\<lambda>e. fst e \<in> S) m)) = set (map_keys m) \<inter> S"
  by (induction m) (auto simp: map_keys_def)

text \<open>The whole synchronous part of a pass, when every \<open>spawn\<close> returns.\<close>

lemma reconcile_with_effect:
  assumes "\<forall>c\<in>set cs. sys (spawn_cmd cfg) (spawn_args cfg) (bot_env cfg (agentId c) (clientId c))"
  shows "\<exists>es. reconcile_with cfg sys cs st =
            (Normal,
             st\<lparr>processes := filter (\<lambda>e. fst e \<in> agentId ` set cs) (processes st) @ es,
                logs := logs st @ map (\<lambda>e. Log Info ''Spawned Discord bot process'' (Some (fst e))) es
                          @ map (\<lambda>e. Log Info ''Stopping bot (no longer active)'' (Some (fst e)))
                              (filter (\<lambda>e. fst e \<notin> agentId ` set cs) (processes st)),
                spawned := spawned st @ map snd es,
                signals := signals st @ map (\<lambda>e. (handle (snd e), ''SIGTERM''))
                                          (filter (\<lambda>e. fst e \<notin> agentId ` set cs) (processes st)),
                exit_observers := exit_observers st @ map (\<lambda>e. (handle (snd e), fst e)) es\<rparr>)
          \<and> distinct (map fst es)
          \<and> set (map fst es) = agentId ` set cs - set (map_keys (processes st))
          \<and> (\<forall>e\<in>set es. \<exists>c\<in>set cs. agentId c = fst e \<and>
                 child_env (snd e) = bot_env cfg (fst e) (clientId c))"
proof -
  let ?D = "agentId ` set cs"
  from reconcile_loop_returns [where cs = cs and sys = sys and cfg = cfg and D = "{}" and st = st, OF assms] obtain es where
    run: "reconcile_loop cfg sys cs {} st =
            (Normal, {} \<union> ?D,
             st\<lparr>processes := processes st @ es,
                logs := logs st @ map (\<lambda>e. Log Info ''Spawned Discord bot process'' (Some (fst e))) es,
                spawned := spawned st @ map snd es,
                exit_observers := exit_observers st @ map (\<lambda>e. (handle (snd e), fst e)) es\<rparr>)"
    and dist: "distinct (map fst es)"
    and keys: "set (map fst es) = ?D - set (map_keys (processes st))"
    and envs: "\<forall>e\<in>set es. \<exists>c\<in>set cs. agentId c = fst e \<and>
                 child_env (snd e) = bot_env cfg (fst e) (clientId c)"
    by blast
  from keys have inD: "\<forall>e\<in>set es. fst e \<in> ?D"
    by auto
  then have keep: "filter (\<lambda>e. fst e \<in> ?D) es = es"
    by (simp add: filter_id_conv)
  from inD have drop: "filter (\<lambda>e. fst e \<notin> ?D) es = []"
    by (simp add: filter_empty_conv)
  have "reconcile_with cfg sys cs st =
            (Normal,
             st\<lparr>processes := filter (\<lambda>e. fst e \<in> ?D) (processes st) @ es,
                logs := logs st @ map (\<lambda>e. Log Info ''Spawned Discord bot process'' (Some (fst e))) es
                          @ map (\<lambda>e. Log Info ''Stopping bot (no longer active)'' (Some (fst e)))
                              (filter (\<lambda>e. fst e \<notin> ?D) (processes st)),
                spawned := spawned st @ map snd es,
                signals := signals st @ map (\<lambda>e. (handle (snd e), ''SIGTERM''))
                                          (filter (\<lambda>e. fst e \<notin> ?D) (processes st)),
                exit_observers := exit_observers st @ map (\<lambda>e. (handle (snd e), fst e)) es\<rparr>)"
    by (simp add: reconcile_with_def run stopMissing_effect keep drop)
  with dist keys envs show ?thesis by blast
qed

text \<open>The fetch changes nothing but the log, and its result does not depend on the state.\<close>

lemma fetchActiveConfigs_state:
  assumes "fetchActiveConfigs out st = (Inr cs, st0)"
  shows "\<exists>ls. st0 = st\<lparr>logs := logs st @ ls\<rparr> \<and>
              (\<forall>s. fetchActiveConfigs out s = (Inr cs, s\<lparr>logs := logs s @ ls\<rparr>))"
proof (cases "fetch_body out")
  case (Inl e)
  with assms show ?thesis
    by (intro exI [of _ "[Log Error ''Failed to fetch active Discord configs from Convex'' None]"])
       (auto simp: fetchActiveConfigs_def log_line_def)
next
  case (Inr r)
  with assms show ?thesis
    by (intro exI [of _ "[]"]) (auto simp: fetchActiveConfigs_def)
qed

subsection \<open>The exit listeners\<close>

lemma on_exit_processes: "processes (on_exit a st) = map_delete a (processes st)"
  by (simp add: on_exit_def log_line_def Let_def)

lemma on_exit_frame:
  "spawned (on_exit a st) = spawned st \<and> signals (on_exit a st) = signals st
   \<and> exit_observers (on_exit a st) = exit_observers st"
  by (simp add: on_exit_def log_line_def Let_def)

lemma fold_on_exit_processes:
  "processes (fold on_exit as st) = filter (\<lambda>e. fst e \<notin> set as) (processes st)"
proof (induction as arbitrary: st)
  case Nil
  show ?case by simp
next
  case (Cons a as)
  have "processes (fold on_exit (a # as) st) =
        filter (\<lambda>e. fst e \<notin> set as) (map_delete a (processes st))"
    using Cons.IH [of "on_exit a st"] by (simp add: on_exit_processes)
  also have "\<dots> = filter (\<lambda>e. fst e \<notin> set (a # as)) (processes st)"
    unfolding map_delete_def filter_filter by (intro filter_cong) auto
  finally show ?case .
qed

lemma fold_on_exit_frame:
  "spawned (fold on_exit as st) = spawned st
   \<and> signals (fold on_exit as st) = signals st
   \<and> exit_observers (fold on_exit as st) = exit_observers st"
  by (induction as arbitrary: st) (simp_all add: on_exit_frame)

lemma map_of_filter_out:
  "map_of (filter (\<lambda>e. fst e \<notin> S) m) k = (if k \<in> S then None else map_of m k)"
  by (induction m) auto

lemma child_exit_removes:
  assumes "(h, a) \<in> set (exit_observers st)"
  shows "\<not> map_has a (processes (child_exit h st))"
proof -
  from assms have "a \<in> set (map snd (filter (\<lambda>ob. fst ob = h) (exit_observers st)))"
    by force
  then show ?thesis
    unfolding map_has_def child_exit_def fold_on_exit_processes map_of_filter_out
    by simp
qed

lemma child_exit_frame:
  "spawned (child_exit h st) = spawned st
   \<and> signals (child_exit h st) = signals st
   \<and> exit_observers (child_exit h st) = exit_observers st"
  by (simp add: child_exit_def fold_on_exit_frame)

subsection \<open>Decoding the answer\<close>

lemma js_String_TypeError:
  "js_String v = Inl e \<longrightarrow> e = TypeError"
  "js_join xs = Inl e \<longrightarrow> e = TypeError"
  by (induction v and xs rule: js_String_js_join.induct)
     (auto split: if_splits sum.splits)

lemma get_prop_TypeError: "get_prop v k = Inl e \<Longrightarrow> e = TypeError"
  by (cases v) auto

lemma to_config_TypeError: "to_config x = Inl e \<Longrightarrow> e = TypeError"
  using js_String_TypeError get_prop_TypeError
  by (fastforce simp: to_config_def split: sum.splits)

lemma to_configs_TypeError: "to_configs xs = Inl e \<Longrightarrow> e = TypeError"
  by (induction xs) (auto split: sum.splits dest: to_config_TypeError)

lemma to_configs_null: "JNull \<in> set xs \<Longrightarrow> to_configs xs = Inl TypeError"
proof (induction xs)
  case Nil
  then show ?case by simp
next
  case (Cons x xs)
  show ?case
  proof (cases "to_config x")
    case (Inl e)
    then show ?thesis using to_config_TypeError [OF Inl] by simp
  next
    case (Inr r)
    then have "x \<noteq> JNull"
      by (auto simp: to_config_def)
    with Cons have "to_configs xs = Inl TypeError"
      by simp
    with Inr show ?thesis by simp
  qed
qed

lemma to_configs_each:
  "to_configs xs = Inr rs \<Longrightarrow> list_all2 (\<lambda>x r. to_config x = Inr r) xs rs"
  by (induction xs arbitrary: rs) (auto split: sum.splits)

lemma to_configs_fails:
  "x \<in> set xs \<Longrightarrow> to_config x = Inl e \<Longrightarrow> to_configs xs = Inl TypeError"
proof (induction xs)
  case Nil
  then show ?case by simp
next
  case (Cons y ys)
  show ?case
  proof (cases "to_config y")
    case (Inl e')
    then show ?thesis using to_config_TypeError [OF Inl] by simp
  next
    case (Inr r)
    with Cons.prems have "x \<in> set ys"
      by auto
    with Cons have "to_configs ys = Inl TypeError"
      by simp
    with Inr show ?thesis by simp
  qed
qed

lemma to_configs_all:
  "list_all2 (\<lambda>x r. to_config x = Inr r) xs rs \<Longrightarrow> to_configs xs = Inr rs"
  by (induction xs rs rule: list_all2_induct) simp_all

text \<open>The callback of \<open>map\<close>, field by field.\<close>

lemma to_config_fields:
  fixes r :: config
  assumes "get_prop x ''agentId'' = Inr a" and "js_String a = Inr (agentId r)"
    and "get_prop x ''clientId'' = Inr b" and "js_String b = Inr (clientId r)"
  shows "to_config x = Inr r"
  using assms by (simp add: to_config_def)

lemma decode_not_array:
  "truthy (fetched_list d) \<Longrightarrow> \<forall>xs. fetched_list d \<noteq> JArr xs \<Longrightarrow> decode d = Inl TypeError"
  by (cases "fetched_list d") (simp_all add: decode_def Let_def)

lemma decode_array: "fetched_list d = JArr xs \<Longrightarrow> decode d = to_configs xs"
  by (simp add: decode_def Let_def)

lemma decode_falsy: "\<not> truthy (fetched_list d) \<Longrightarrow> decode d = Inr []"
  by (simp add: decode_def Let_def)

subsection \<open>One handle per identity\<close>

text \<open>No step of the supervisor makes a second entry for a key.\<close>

lemma distinct_spawnBot:
  assumes "distinct (map_keys (processes st))"
  shows "distinct (map_keys (processes (snd (spawnBot cfg sys a cid st))))"
proof (cases "map_has a (processes st)")
  case True
  with assms show ?thesis by (simp add: spawnBot_present)
next
  case False
  with assms have "distinct (map_keys (processes st @ [(a, c)]))" for c
    by (simp add: map_has_keys map_keys_def)
  with False assms show ?thesis
    by (cases "sys (spawn_cmd cfg) (spawn_args cfg) (bot_env cfg a cid)")
       (simp_all add: spawnBot_absent_returns spawnBot_absent_throws)
qed

lemma distinct_reconcile_loop:
  "distinct (map_keys (processes st)) \<Longrightarrow>
   distinct (map_keys (processes (snd (snd (reconcile_loop cfg sys cs D st)))))"
proof (induction cs arbitrary: D st)
  case Nil
  then show ?case by simp
next
  case (Cons c cs)
  obtain r st1 where step: "spawnBot cfg sys (agentId c) (clientId c) st = (r, st1)"
    by (cases "spawnBot cfg sys (agentId c) (clientId c) st")
  from distinct_spawnBot [OF Cons.prems, of cfg sys "agentId c" "clientId c"] step
  have d1: "distinct (map_keys (processes st1))"
    by simp
  show ?case
  proof (cases r)
    case Normal
    with step Cons.IH [OF d1] show ?thesis by simp
  next
    case (Thrown e)
    with step d1 show ?thesis by simp
  qed
qed

lemma distinct_stopMissing:
  "distinct (map_keys (processes st)) \<Longrightarrow> distinct (map_keys (processes (stopMissing D st)))"
  by (simp add: stopMissing_effect map_keys_def distinct_map_filter)

lemma distinct_reconcile:
  assumes "distinct (map_keys (processes st))"
  shows "distinct (map_keys (processes (snd (reconcile cfg sys out st))))"
proof -
  obtain cs st0 where f: "fetchActiveConfigs out st = (Inr cs, st0)"
    and p0: "processes st0 = processes st"
    by (cases "fetch_body out") (auto simp: fetchActiveConfigs_def log_line_def)
  obtain r D st1 where l: "reconcile_loop cfg sys cs {} st0 = (r, D, st1)"
    by (cases "reconcile_loop cfg sys cs {} st0")
  from assms p0 have "distinct (map_keys (processes st0))"
    by simp
  from distinct_reconcile_loop [OF this, of cfg sys cs "{}"] l
  have d1: "distinct (map_keys (processes st1))"
    by simp
  show ?thesis
  proof (cases r)
    case Normal
    with f l distinct_stopMissing [OF d1] show ?thesis
      by (simp add: reconcile_def reconcile_with_def)
  next
    case (Thrown e)
    with f l d1 show ?thesis
      by (simp add: reconcile_def reconcile_with_def)
  qed
qed

lemma distinct_child_exit:
  "distinct (map_keys (processes st)) \<Longrightarrow> distinct (map_keys (processes (child_exit h st)))"
  by (simp add: child_exit_def fold_on_exit_processes map_keys_def distinct_map_filter)

subsection \<open>The example runs, evaluated\<close>

lemma to_configs_listing:
  "to_configs (map (\<lambda>p. JObj [(''agentId'', JStr (fst p)), (''clientId'', JStr (snd p))]) ps) =
     Inr (map (\<lambda>p. \<lparr>agentId = fst p, clientId = snd p\<rparr>) ps)"
  by (induction ps) (simp_all add: to_config_def)

lemma fetch_listing:
  "fetchActiveConfigs (listing ps) st =
     (Inr (map (\<lambda>p. \<lparr>agentId = fst p, clientId = snd p\<rparr>) ps), st)"
  by (simp add: fetchActiveConfigs_def fetch_body_def listing_def resp_ok_def decode_def
      fetched_list_def nullish_def to_configs_listing)

lemmas pass_defs =
  interval_tick_def reconcile_def fetch_listing reconcile_with_def spawnBot_def spawn_def
  new_child_def map_has_def os_ok_def log_line_def stopMissing_def map_delete_def Let_def

lemma run1_eq:
  "run1 =
     \<lparr>processes =
        [(''A'', \<lparr>handle = 0, spawnfile = spawn_cmd cfg_dev, spawnargs = spawn_args cfg_dev,
                  child_env = bot_env cfg_dev ''A'' ''1''\<rparr>),
         (''B'', \<lparr>handle = 1, spawnfile = spawn_cmd cfg_dev, spawnargs = spawn_args cfg_dev,
                  child_env = bot_env cfg_dev ''B'' ''2''\<rparr>)],
      logs = [Log Info ''Spawned Discord bot process'' (Some ''A''),
              Log Info ''Spawned Discord bot process'' (Some ''B'')],
      spawned =
        [\<lparr>handle = 0, spawnfile = spawn_cmd cfg_dev, spawnargs = spawn_args cfg_dev,
           child_env = bot_env cfg_dev ''A'' ''1''\<rparr>,
         \<lparr>handle = 1, spawnfile = spawn_cmd cfg_dev, spawnargs = spawn_args cfg_dev,
           child_env = bot_env cfg_dev ''B'' ''2''\<rparr>],
      signals = [],
      exit_observers = [(0, ''A''), (1, ''B'')]\<rparr>"
  by (simp add: run1_def init_def pass_defs)

lemma run2_eq:
  "run2 =
     \<lparr>processes =
        [(''B'', \<lparr>handle = 1, spawnfile = spawn_cmd cfg_dev, spawnargs = spawn_args cfg_dev,
                  child_env = bot_env cfg_dev ''B'' ''2''\<rparr>),
         (''C'', \<lparr>handle = 2, spawnfile = spawn_cmd cfg_dev, spawnargs = spawn_args cfg_dev,
                  child_env = bot_env cfg_dev ''C'' ''3''\<rparr>)],
      logs = [Log Info ''Spawned Discord bot process'' (Some ''A''),
              Log Info ''Spawned Discord bot process'' (Some ''B''),
              Log Info ''Spawned Discord bot process'' (Some ''C''),
              Log Info ''Stopping bot (no longer active)'' (Some ''A'')],
      spawned =
        [\<lparr>handle = 0, spawnfile = spawn_cmd cfg_dev, spawnargs = spawn_args cfg_dev,
           child_env = bot_env cfg_dev ''A'' ''1''\<rparr>,
         \<lparr>handle = 1, spawnfile = spawn_cmd cfg_dev, spawnargs = spawn_args cfg_dev,
           child_env = bot_env cfg_dev ''B'' ''2''\<rparr>,
         \<lparr>handle = 2, spawnfile = spawn_cmd cfg_dev, spawnargs = spawn_args cfg_dev,
           child_env = bot_env cfg_dev ''C'' ''3''\<rparr>],
      signals = [(0, ''SIGTERM'')],
      exit_observers = [(0, ''A''), (1, ''B''), (2, ''C'')]\<rparr>"
  by (simp add: run2_def run1_eq pass_defs)

lemma relaunched_eq:
  "relaunched =
     \<lparr>processes =
        [(''A'', \<lparr>handle = 1, spawnfile = spawn_cmd cfg_dev, spawnargs = spawn_args cfg_dev,
                  child_env = bot_env cfg_dev ''A'' ''1''\<rparr>)],
      logs = [Log Info ''Spawned Discord bot process'' (Some ''A''),
              Log Info ''Stopping bot (no longer active)'' (Some ''A''),
              Log Info ''Spawned Discord bot process'' (Some ''A'')],
      spawned =
        [\<lparr>handle = 0, spawnfile = spawn_cmd cfg_dev, spawnargs = spawn_args cfg_dev,
           child_env = bot_env cfg_dev ''A'' ''1''\<rparr>,
         \<lparr>handle = 1, spawnfile = spawn_cmd cfg_dev, spawnargs = spawn_args cfg_dev,
           child_env = bot_env cfg_dev ''A'' ''1''\<rparr>],
      signals = [(0, ''SIGTERM'')],
      exit_observers = [(0, ''A''), (1, ''A'')]\<rparr>"
  by (simp add: relaunched_def init_def pass_defs)

subsection \<open>What a pass does to an identity that is running and desired\<close>

lemma spawnBot_keeps:
  assumes "map_of (processes st) a = Some ch"
  shows "\<exists>r st' news. spawnBot cfg sys b cid st = (r, st')
           \<and> map_of (processes st') a = Some ch
           \<and> signals st' = signals st
           \<and> spawned st' = spawned st @ news
           \<and> (\<forall>c\<in>set news. child_env c ''AGENT_ID'' \<noteq> Some a)"
proof (cases "map_has b (processes st)")
  case True
  with assms show ?thesis
    by (simp add: spawnBot_present)
next
  case False
  with assms have ne: "b \<noteq> a"
    by (auto simp: map_has_def)
  show ?thesis
  proof (cases "sys (spawn_cmd cfg) (spawn_args cfg) (bot_env cfg b cid)")
    case True
    let ?n = "new_child (spawn_cmd cfg) (spawn_args cfg) (bot_env cfg b cid) st"
    have "child_env ?n ''AGENT_ID'' \<noteq> Some a"
      using ne by (simp add: new_child_def bot_env_def)
    moreover have "map_of (processes st @ [(b, ?n)]) a = Some ch"
      using assms by (simp add: map_add_def)
    ultimately show ?thesis
      using spawnBot_absent_returns [of b st sys cfg cid] False True
      by simp
  next
    case no: False
    with False assms show ?thesis
      by (simp add: spawnBot_absent_throws)
  qed
qed

text \<open>
  Whatever \<open>spawn\<close> does, the \<open>for\<close> loop only appends entries, each for a fetched
  identity that had none, and sends no signal.
\<close>

lemma reconcile_loop_shape:
  "\<exists>r D' es. reconcile_loop cfg sys cs D st =
            (r, D',
             st\<lparr>processes := processes st @ es,
                logs := logs st @ map (\<lambda>e. Log Info ''Spawned Discord bot process'' (Some (fst e))) es,
                spawned := spawned st @ map snd es,
                exit_observers := exit_observers st @ map (\<lambda>e. (handle (snd e), fst e)) es\<rparr>)
          \<and> set (map fst es) \<subseteq> agentId ` set cs - set (map_keys (processes st))
          \<and> (\<forall>e\<in>set es. child_env (snd e) ''AGENT_ID'' = Some (fst e))
          \<and> (r = Normal \<longrightarrow> D' = D \<union> agentId ` set cs)"
proof (induction cs arbitrary: D st)
  case Nil
  show ?case
    by (rule exI [of _ Normal], rule exI [of _ D], rule exI [of _ "[]"]) simp
next
  case (Cons c cs)
  let ?a = "agentId c"
  show ?case
  proof (cases "map_has ?a (processes st)")
    case True
    from Cons.IH [of "insert ?a D" st] obtain r D' es where
      run: "reconcile_loop cfg sys cs (insert ?a D) st =
            (r, D',
             st\<lparr>processes := processes st @ es,
                logs := logs st @ map (\<lambda>e. Log Info ''Spawned Discord bot process'' (Some (fst e))) es,
                spawned := spawned st @ map snd es,
                exit_observers := exit_observers st @ map (\<lambda>e. (handle (snd e), fst e)) es\<rparr>)"
      and keys: "set (map fst es) \<subseteq> agentId ` set cs - set (map_keys (processes st))"
      and envs: "\<forall>e\<in>set es. child_env (snd e) ''AGENT_ID'' = Some (fst e)"
      and des: "r = Normal \<longrightarrow> D' = insert ?a D \<union> agentId ` set cs"
      by blast
    have "reconcile_loop cfg sys (c # cs) D st =
            (r, D',
             st\<lparr>processes := processes st @ es,
                logs := logs st @ map (\<lambda>e. Log Info ''Spawned Discord bot process'' (Some (fst e))) es,
                spawned := spawned st @ map snd es,
                exit_observers := exit_observers st @ map (\<lambda>e. (handle (snd e), fst e)) es\<rparr>)"
      using True run by (simp add: spawnBot_present)
    moreover have "set (map fst es) \<subseteq> agentId ` set (c # cs) - set (map_keys (processes st))"
      using keys by auto
    moreover have "r = Normal \<longrightarrow> D' = D \<union> agentId ` set (c # cs)"
      using des by auto
    ultimately show ?thesis
      using envs by blast
  next
    case False
    show ?thesis
    proof (cases "sys (spawn_cmd cfg) (spawn_args cfg) (bot_env cfg ?a (clientId c))")
      case no: False
      have "reconcile_loop cfg sys (c # cs) D st = (Thrown SpawnFailed, insert ?a D, st)"
        using False no by (simp add: spawnBot_absent_throws)
      then show ?thesis
        by (intro exI [of _ "Thrown SpawnFailed"] exI [of _ "insert ?a D"] exI [of _ "[]"]) simp
    next
      case True
      let ?n = "new_child (spawn_cmd cfg) (spawn_args cfg) (bot_env cfg ?a (clientId c)) st"
      let ?st1 = "st\<lparr>processes := processes st @ [(?a, ?n)],
                   logs := logs st @ [Log Info ''Spawned Discord bot process'' (Some ?a)],
                   spawned := spawned st @ [?n],
                   exit_observers := exit_observers st @ [(length (spawned st), ?a)]\<rparr>"
      have step: "spawnBot cfg sys ?a (clientId c) st = (Normal, ?st1)"
        using spawnBot_absent_returns [of ?a st sys cfg "clientId c"] False True by simp
      from Cons.IH [of "insert ?a D" ?st1] obtain r D' es where
        run: "reconcile_loop cfg sys cs (insert ?a D) ?st1 =
            (r, D',
             ?st1\<lparr>processes := processes ?st1 @ es,
                logs := logs ?st1 @ map (\<lambda>e. Log Info ''Spawned Discord bot process'' (Some (fst e))) es,
                spawned := spawned ?st1 @ map snd es,
                exit_observers := exit_observers ?st1 @ map (\<lambda>e. (handle (snd e), fst e)) es\<rparr>)"
        and keys: "set (map fst es) \<subseteq> agentId ` set cs - set (map_keys (processes ?st1))"
        and envs: "\<forall>e\<in>set es. child_env (snd e) ''AGENT_ID'' = Some (fst e)"
        and des: "r = Normal \<longrightarrow> D' = insert ?a D \<union> agentId ` set cs"
        by blast
      let ?es = "(?a, ?n) # es"
      from False have notin: "?a \<notin> set (map_keys (processes st))"
        by (simp add: map_has_keys)
      have "reconcile_loop cfg sys (c # cs) D st =
            (r, D',
             st\<lparr>processes := processes st @ ?es,
                logs := logs st @ map (\<lambda>e. Log Info ''Spawned Discord bot process'' (Some (fst e))) ?es,
                spawned := spawned st @ map snd ?es,
                exit_observers := exit_observers st @ map (\<lambda>e. (handle (snd e), fst e)) ?es\<rparr>)"
        using step run by (simp add: new_child_def)
      moreover have "set (map fst ?es) \<subseteq> agentId ` set (c # cs) - set (map_keys (processes st))"
        using keys notin by (auto simp: map_keys_def)
      moreover have "\<forall>e\<in>set ?es. child_env (snd e) ''AGENT_ID'' = Some (fst e)"
        using envs by (simp add: new_child_def bot_env_def)
      moreover have "r = Normal \<longrightarrow> D' = D \<union> agentId ` set (c # cs)"
        using des by auto
      ultimately show ?thesis by blast
    qed
  qed
qed

text \<open>
  Two fetched lists that name the same identities in the same order, and differ in a
  client id only where the identity is running, take the loop through the same steps.
\<close>

lemma map_has_spawnBot_mono:
  "map_has a (processes st) \<Longrightarrow> map_has a (processes (snd (spawnBot cfg sys b cid st)))"
proof -
  assume "map_has a (processes st)"
  then obtain ch where "map_of (processes st) a = Some ch"
    by (auto simp: map_has_def)
  from spawnBot_keeps [OF this, of cfg sys b cid] show ?thesis
    by (auto simp: map_has_def)
qed

lemma reconcile_loop_clientId:
  assumes "list_all2 (\<lambda>c c'. agentId c' = agentId c \<and>
              (clientId c' \<noteq> clientId c \<longrightarrow> map_has (agentId c) (processes st))) cs cs'"
  shows "reconcile_loop cfg sys cs' D st = reconcile_loop cfg sys cs D st"
  using assms
proof (induction cs arbitrary: cs' D st)
  case Nil
  then show ?case by simp
next
  case (Cons c cs)
  from Cons.prems obtain c' ds where cs': "cs' = c' # ds"
    and same: "agentId c' = agentId c"
    and diff: "clientId c' \<noteq> clientId c \<longrightarrow> map_has (agentId c) (processes st)"
    and rest: "list_all2 (\<lambda>c c'. agentId c' = agentId c \<and>
              (clientId c' \<noteq> clientId c \<longrightarrow> map_has (agentId c) (processes st))) cs ds"
    by (auto simp: list_all2_Cons1)
  have step: "spawnBot cfg sys (agentId c') (clientId c') st =
              spawnBot cfg sys (agentId c) (clientId c) st"
  proof (cases "clientId c' = clientId c")
    case True
    with same show ?thesis by simp
  next
    case False
    with diff have "map_has (agentId c) (processes st)"
      by simp
    then show ?thesis
      by (simp add: same spawnBot_present)
  qed
  obtain r st1 where r: "spawnBot cfg sys (agentId c) (clientId c) st = (r, st1)"
    by (cases "spawnBot cfg sys (agentId c) (clientId c) st")
  have mono: "map_has b (processes st) \<Longrightarrow> map_has b (processes st1)" for b
    using map_has_spawnBot_mono [of b st cfg sys "agentId c" "clientId c"] r by simp
  have "list_all2 (\<lambda>c c'. agentId c' = agentId c \<and>
              (clientId c' \<noteq> clientId c \<longrightarrow> map_has (agentId c) (processes st1))) cs ds"
    using rest by (rule list_all2_mono) (use mono in blast)
  moreover have "spawnBot cfg sys (agentId c) (clientId c') st = (r, st1)"
    using step r by (simp add: same)
  ultimately show ?case
    using Cons.IH [of st1 ds "insert (agentId c) D"] r
    by (cases r) (simp_all add: cs' same)
qed

subsection \<open>One pass, from the fetch to the last stop\<close>

text \<open>A desired identity that is not running is started by a pass whose spawns return.\<close>

lemma reconcile_pass_starts:
  assumes fetch: "fetchActiveConfigs out st = (Inr configs, st0)"
    and ok: "\<forall>c\<in>set configs.
               sys (spawn_cmd cfg) (spawn_args cfg) (bot_env cfg (agentId c) (clientId c))"
    and desired: "a \<in> agentId ` set configs"
    and absent: "\<not> map_has a (processes st)"
  shows "\<exists>st' c' news. reconcile cfg sys out st = (Normal, st')
           \<and> map_of (processes st') a = Some c'
           \<and> spawned st' = spawned st @ news \<and> c' \<in> set news
           \<and> child_env c' ''AGENT_ID'' = Some a"
proof -
  let ?D = "agentId ` set configs"
  from fetchActiveConfigs_state [OF fetch] obtain ls where
    st0: "st0 = st\<lparr>logs := logs st @ ls\<rparr>"
    by blast
  from reconcile_with_effect [where cs = configs and sys = sys and cfg = cfg and st = st0, OF ok]
  obtain es st' where
    run: "reconcile_with cfg sys configs st0 = (Normal, st')"
    and st': "st' =
             st0\<lparr>processes := filter (\<lambda>e. fst e \<in> ?D) (processes st0) @ es,
                logs := logs st0 @ map (\<lambda>e. Log Info ''Spawned Discord bot process'' (Some (fst e))) es
                          @ map (\<lambda>e. Log Info ''Stopping bot (no longer active)'' (Some (fst e)))
                              (filter (\<lambda>e. fst e \<notin> ?D) (processes st0)),
                spawned := spawned st0 @ map snd es,
                signals := signals st0 @ map (\<lambda>e. (handle (snd e), ''SIGTERM''))
                                          (filter (\<lambda>e. fst e \<notin> ?D) (processes st0)),
                exit_observers := exit_observers st0 @ map (\<lambda>e. (handle (snd e), fst e)) es\<rparr>"
    and dist: "distinct (map fst es)"
    and keys: "set (map fst es) = ?D - set (map_keys (processes st0))"
    and envs: "\<forall>e\<in>set es. \<exists>c\<in>set configs. agentId c = fst e \<and>
                 child_env (snd e) = bot_env cfg (fst e) (clientId c)"
    by blast
  have none: "map_of (processes st) a = None"
    using absent by (simp add: map_has_def)
  have "a \<notin> set (map_keys (processes st0))"
    using absent by (simp add: st0 map_has_keys del: set_map)
  with desired keys have "a \<in> set (map fst es)"
    by blast
  then have "a \<in> fst ` set es"
    by (simp only: set_map)
  then obtain e where a: "a = fst e" and e: "e \<in> set es"
    by (rule imageE)
  from e dist have "map_of es (fst e) = Some (snd e)"
    by simp
  then have m: "map_of (processes st') a = Some (snd e)"
    using none by (simp add: st' st0 a map_of_filter_key map_add_def)
  from envs e have v: "child_env (snd e) ''AGENT_ID'' = Some a"
    by (auto simp: a bot_env_def)
  from e have n: "snd e \<in> set (map snd es)"
    by simp
  have sp: "spawned st' = spawned st @ map snd es"
    by (simp add: st' st0)
  have "reconcile cfg sys out st = (Normal, st')"
    by (simp add: reconcile_def fetch run)
  with m sp n v show ?thesis
    by blast
qed

subsection \<open>A pass in which \<open>spawn\<close> throws\<close>

lemma reconcile_loop_append:
  "reconcile_loop cfg sys (xs @ ys) D st =
     (case reconcile_loop cfg sys xs D st of
        (Normal, D1, st1) \<Rightarrow> reconcile_loop cfg sys ys D1 st1
      | (Thrown e, D1, st1) \<Rightarrow> (Thrown e, D1, st1))"
  by (induction xs arbitrary: D st) (auto split: prod.splits completion.splits)

lemma reconcile_with_throws:
  assumes pre_ok: "\<forall>p\<in>set pre.
               sys (spawn_cmd cfg) (spawn_args cfg) (bot_env cfg (agentId p) (clientId p))"
    and absent: "\<not> map_has (agentId c) (processes st)"
    and fresh: "agentId c \<notin> agentId ` set pre"
    and fails: "\<not> sys (spawn_cmd cfg) (spawn_args cfg) (bot_env cfg (agentId c) (clientId c))"
  shows "\<exists>es. reconcile_with cfg sys (pre @ c # post) st =
            (Thrown SpawnFailed,
             st\<lparr>processes := processes st @ es,
                logs := logs st @ map (\<lambda>e. Log Info ''Spawned Discord bot process'' (Some (fst e))) es,
                spawned := spawned st @ map snd es,
                exit_observers := exit_observers st @ map (\<lambda>e. (handle (snd e), fst e)) es\<rparr>)
          \<and> distinct (map fst es)
          \<and> set (map fst es) = agentId ` set pre - set (map_keys (processes st))"
proof -
  from reconcile_loop_returns [where cs = pre and sys = sys and cfg = cfg and D = "{}" and st = st,
      OF pre_ok]
  obtain es st1 where
    run: "reconcile_loop cfg sys pre {} st = (Normal, {} \<union> agentId ` set pre, st1)"
    and st1: "st1 = st\<lparr>processes := processes st @ es,
                logs := logs st @ map (\<lambda>e. Log Info ''Spawned Discord bot process'' (Some (fst e))) es,
                spawned := spawned st @ map snd es,
                exit_observers := exit_observers st @ map (\<lambda>e. (handle (snd e), fst e)) es\<rparr>"
    and dist: "distinct (map fst es)"
    and keys: "set (map fst es) = agentId ` set pre - set (map_keys (processes st))"
    by blast
  have "set (map_keys (processes st1)) = set (map_keys (processes st)) \<union> set (map fst es)"
    by (simp add: st1 map_keys_def)
  with absent fresh keys have "\<not> map_has (agentId c) (processes st1)"
    by (simp add: map_has_keys del: set_map)
  then have "spawnBot cfg sys (agentId c) (clientId c) st1 = (Thrown SpawnFailed, st1)"
    using fails by (rule spawnBot_absent_throws)
  then have "reconcile_with cfg sys (pre @ c # post) st = (Thrown SpawnFailed, st1)"
    by (simp add: reconcile_with_def reconcile_loop_append run)
  with st1 dist keys show ?thesis
    by blast
qed

section \<open>Claims\<close>

text \<open>
  C1. Let the fetch deliver \<open>configs\<close>, let \<open>D\<close> be the identities in it and \<open>R\<close> the
  keys of the registry, and let every \<open>spawn\<close> of the pass return. Then one pass
  sends \<open>SIGTERM\<close> to exactly the handles registered under \<open>R - D\<close> and removes those
  keys; it spawns one child for each identity of \<open>D - R\<close> and registers it; it leaves
  the entries of \<open>R \<inter> D\<close> as they were; afterwards the keys of the registry are \<open>D\<close>.
  A second pass with the same answer of the remote source spawns nothing, signals
  nothing and leaves the registry as it is, whatever \<open>spawn\<close> would do.
\<close>

theorem reconcile_diff:
  assumes fetch: "fetchActiveConfigs out st = (Inr configs, st0)"
    and ok: "\<forall>c\<in>set configs.
               sys (spawn_cmd cfg) (spawn_args cfg) (bot_env cfg (agentId c) (clientId c))"
  shows "\<exists>st' started.
           reconcile cfg sys out st = (Normal, st')
         \<and> signals st' = signals st @ map (\<lambda>e. (handle (snd e), ''SIGTERM''))
                (filter (\<lambda>e. fst e \<notin> agentId ` set configs) (processes st))
         \<and> (\<forall>a\<in>set (map_keys (processes st)) - agentId ` set configs.
                \<not> map_has a (processes st'))
         \<and> spawned st' = spawned st @ map snd started
         \<and> distinct (map fst started)
         \<and> set (map fst started) = agentId ` set configs - set (map_keys (processes st))
         \<and> (\<forall>e\<in>set started. map_of (processes st') (fst e) = Some (snd e)
                \<and> child_env (snd e) ''AGENT_ID'' = Some (fst e))
         \<and> (\<forall>a\<in>set (map_keys (processes st)) \<inter> agentId ` set configs.
                map_of (processes st') a = map_of (processes st) a)
         \<and> set (map_keys (processes st')) = agentId ` set configs
         \<and> (\<forall>sys'. \<exists>st''. reconcile cfg sys' out st' = (Normal, st'')
                \<and> processes st'' = processes st' \<and> spawned st'' = spawned st'
                \<and> signals st'' = signals st')"
proof -
  let ?D = "agentId ` set configs"
  let ?R = "set (map_keys (processes st))"
  from fetchActiveConfigs_state [OF fetch] obtain ls where
    st0: "st0 = st\<lparr>logs := logs st @ ls\<rparr>"
    and again: "\<And>s. fetchActiveConfigs out s = (Inr configs, s\<lparr>logs := logs s @ ls\<rparr>)"
    by blast
  from reconcile_with_effect [where cs = configs and sys = sys and cfg = cfg and st = st0, OF ok]
  obtain es st' where
    run: "reconcile_with cfg sys configs st0 = (Normal, st')"
    and st': "st' =
             st0\<lparr>processes := filter (\<lambda>e. fst e \<in> ?D) (processes st0) @ es,
                logs := logs st0 @ map (\<lambda>e. Log Info ''Spawned Discord bot process'' (Some (fst e))) es
                          @ map (\<lambda>e. Log Info ''Stopping bot (no longer active)'' (Some (fst e)))
                              (filter (\<lambda>e. fst e \<notin> ?D) (processes st0)),
                spawned := spawned st0 @ map snd es,
                signals := signals st0 @ map (\<lambda>e. (handle (snd e), ''SIGTERM''))
                                          (filter (\<lambda>e. fst e \<notin> ?D) (processes st0)),
                exit_observers := exit_observers st0 @ map (\<lambda>e. (handle (snd e), fst e)) es\<rparr>"
    and dist: "distinct (map fst es)"
    and keys: "set (map fst es) = ?D - set (map_keys (processes st0))"
    and envs: "\<forall>e\<in>set es. \<exists>c\<in>set configs. agentId c = fst e \<and>
                 child_env (snd e) = bot_env cfg (fst e) (clientId c)"
    by blast
  have procs: "processes st' = filter (\<lambda>e. fst e \<in> ?D) (processes st) @ es"
    by (simp add: st' st0)
  have keys': "set (map fst es) = ?D - ?R"
    using keys by (simp add: st0)
  have c1: "reconcile cfg sys out st = (Normal, st')"
    by (simp add: reconcile_def fetch run)
  have c2: "signals st' = signals st @ map (\<lambda>e. (handle (snd e), ''SIGTERM''))
              (filter (\<lambda>e. fst e \<notin> ?D) (processes st))"
    by (simp add: st' st0)
  have lookup: "map_of (processes st') a =
                  (case (if a \<in> ?D then map_of (processes st) a else None) of
                     None \<Rightarrow> map_of es a | Some c \<Rightarrow> Some c)" for a
    unfolding procs by (simp add: map_of_filter_key map_add_def)
  have running: "a \<in> ?R \<longleftrightarrow> map_of (processes st) a \<noteq> None" for a
    by (simp add: map_keys_def map_of_eq_None_iff)
  have absent: "map_of es a = None" if "a \<in> ?R" for a
    using that keys' by (metis DiffD2 map_of_eq_None_iff set_map)
  have c3: "\<forall>a\<in>?R - ?D. \<not> map_has a (processes st')"
    unfolding map_has_def using absent by (simp add: lookup)
  have c4: "spawned st' = spawned st @ map snd es"
    by (simp add: st' st0)
  have c7: "\<forall>e\<in>set es. map_of (processes st') (fst e) = Some (snd e)
              \<and> child_env (snd e) ''AGENT_ID'' = Some (fst e)"
  proof
    fix e assume e: "e \<in> set es"
    then have "fst e \<in> ?D - ?R"
      using keys' by (metis image_eqI set_map)
    moreover from e dist have "map_of es (fst e) = Some (snd e)"
      by simp
    moreover from e envs have "child_env (snd e) ''AGENT_ID'' = Some (fst e)"
      by (auto simp: bot_env_def)
    ultimately show "map_of (processes st') (fst e) = Some (snd e)
              \<and> child_env (snd e) ''AGENT_ID'' = Some (fst e)"
      using running [of "fst e"] by (simp add: lookup)
  qed
  have c8: "\<forall>a\<in>?R \<inter> ?D. map_of (processes st') a = map_of (processes st) a"
    using running by (auto simp: lookup)
  have c9: "set (map_keys (processes st')) = ?D"
  proof -
    have "set (map_keys (processes st')) = (?R \<inter> ?D) \<union> set (map fst es)"
      unfolding procs using map_keys_filter_key [of ?D "processes st"]
      by (simp add: map_keys_def)
    then show ?thesis using keys' by auto
  qed
  have c10: "\<exists>st''. reconcile cfg sys' out st' = (Normal, st'')
                \<and> processes st'' = processes st' \<and> spawned st'' = spawned st'
                \<and> signals st'' = signals st'" for sys'
  proof -
    let ?s = "st'\<lparr>logs := logs st' @ ls\<rparr>"
    have present: "\<forall>c\<in>set configs. map_has (agentId c) (processes ?s)"
      using c9 by (simp add: map_has_keys del: set_map)
    have keep: "filter (\<lambda>e. fst e \<in> ?D) (processes st') = processes st'"
      using c9 by (auto simp: filter_id_conv map_keys_def)
    have drop: "filter (\<lambda>e. fst e \<notin> ?D) (processes st') = []"
      using c9 by (auto simp: filter_empty_conv map_keys_def)
    have "reconcile_with cfg sys' configs ?s = (Normal, ?s)"
      by (simp add: reconcile_with_def reconcile_loop_all_present [OF present]
          stopMissing_effect keep drop)
    then have "reconcile cfg sys' out st' = (Normal, ?s)"
      by (simp add: reconcile_def again)
    then show ?thesis by simp
  qed
  from c1 c2 c3 c4 dist keys' c7 c8 c9 c10 show ?thesis
    by blast
qed

theorem reconcile_diff_witness:
  "reconcile cfg_dev os_ok (listing [(''B'', ''2''), (''C'', ''3'')]) run1 = (Normal, run2)
   \<and> fetchActiveConfigs (listing [(''B'', ''2''), (''C'', ''3'')]) run1 =
       (Inr [\<lparr>agentId = ''B'', clientId = ''2''\<rparr>, \<lparr>agentId = ''C'', clientId = ''3''\<rparr>], run1)
   \<and> set (map_keys (processes run2)) = {''B'', ''C''}
   \<and> signals run2 = [(0, ''SIGTERM'')]"
proof -
  have f: "fetchActiveConfigs (listing [(''B'', ''2''), (''C'', ''3'')]) run1 =
       (Inr [\<lparr>agentId = ''B'', clientId = ''2''\<rparr>, \<lparr>agentId = ''C'', clientId = ''3''\<rparr>], run1)"
    by (simp add: fetch_listing)
  have o: "\<forall>c\<in>set [\<lparr>agentId = ''B'', clientId = ''2''\<rparr>, \<lparr>agentId = ''C'', clientId = ''3''\<rparr>].
             os_ok (spawn_cmd cfg_dev) (spawn_args cfg_dev) (bot_env cfg_dev (agentId c) (clientId c))"
    by (simp add: os_ok_def)
  have r: "reconcile cfg_dev os_ok (listing [(''B'', ''2''), (''C'', ''3'')]) run1 = (Normal, run2)"
    by (simp add: run2_eq run1_eq pass_defs)
  from reconcile_diff [where out = "listing [(''B'', ''2''), (''C'', ''3'')]" and st = run1
      and st0 = run1 and sys = os_ok and cfg = cfg_dev, OF f o] r
  have "set (map_keys (processes run2)) = {''B'', ''C''}"
    and "signals run2 = signals run1 @ map (\<lambda>e. (handle (snd e), ''SIGTERM''))
          (filter (\<lambda>e. fst e \<notin> agentId ` set [\<lparr>agentId = ''B'', clientId = ''2''\<rparr>,
               \<lparr>agentId = ''C'', clientId = ''3''\<rparr>]) (processes run1))"
    by auto
  then show ?thesis using f r
    by (simp add: run1_eq)
qed

text \<open>
  C3. When the identity is already in the registry, \<open>spawnBot\<close> returns at once and
  leaves the whole state as it was: no child is created and the registry entry is the
  one that was there. After a \<open>spawnBot\<close> that returned, a second call for the same
  identity, with any client id and whatever \<open>spawn\<close> would do, is such a no-op. The
  registry has each key once: it starts empty, and \<open>spawnBot\<close>, a whole pass and an
  exit listener each keep the keys distinct.
\<close>

theorem spawnBot_idempotent:
  "(map_has a (processes st) \<longrightarrow> spawnBot cfg sys a cid st = (Normal, st))
   \<and> (fst (spawnBot cfg sys a cid st) = Normal \<longrightarrow>
        spawnBot cfg sys' a cid' (snd (spawnBot cfg sys a cid st)) =
          (Normal, snd (spawnBot cfg sys a cid st)))
   \<and> distinct (map_keys (processes init))
   \<and> (distinct (map_keys (processes st)) \<longrightarrow>
        distinct (map_keys (processes (snd (spawnBot cfg sys a cid st))))
        \<and> distinct (map_keys (processes (snd (reconcile cfg sys out st))))
        \<and> distinct (map_keys (processes (child_exit h st))))"
proof (intro conjI impI)
  assume "map_has a (processes st)"
  then show "spawnBot cfg sys a cid st = (Normal, st)"
    by (rule spawnBot_present)
next
  assume ret: "fst (spawnBot cfg sys a cid st) = Normal"
  have "map_has a (processes (snd (spawnBot cfg sys a cid st)))"
  proof (cases "map_has a (processes st)")
    case True
    then show ?thesis by (simp add: spawnBot_present)
  next
    case False
    with ret have "sys (spawn_cmd cfg) (spawn_args cfg) (bot_env cfg a cid)"
      by (auto simp: spawnBot_def spawn_def split: if_splits)
    with False show ?thesis
      by (simp add: spawnBot_absent_returns map_has_def)
  qed
  then show "spawnBot cfg sys' a cid' (snd (spawnBot cfg sys a cid st)) =
          (Normal, snd (spawnBot cfg sys a cid st))"
    by (rule spawnBot_present)
next
  show "distinct (map_keys (processes init))"
    by (simp add: init_def map_keys_def)
next
  assume d: "distinct (map_keys (processes st))"
  then show "distinct (map_keys (processes (snd (spawnBot cfg sys a cid st))))"
    by (rule distinct_spawnBot)
  from d show "distinct (map_keys (processes (snd (reconcile cfg sys out st))))"
    by (rule distinct_reconcile)
  from d show "distinct (map_keys (processes (child_exit h st)))"
    by (rule distinct_child_exit)
qed

theorem spawnBot_idempotent_witness:
  "map_has ''A'' (processes run1)
   \<and> spawnBot cfg_dev os_ok ''A'' ''9'' run1 = (Normal, run1)
   \<and> fst (spawnBot cfg_dev os_ok ''C'' ''3'' run1) = Normal
   \<and> spawnBot cfg_dev os_ok ''C'' ''4'' (snd (spawnBot cfg_dev os_ok ''C'' ''3'' run1)) =
        (Normal, snd (spawnBot cfg_dev os_ok ''C'' ''3'' run1))
   \<and> distinct (map_keys (processes run1))
   \<and> distinct (map_keys (processes (snd (spawnBot cfg_dev os_ok ''C'' ''3'' run1))))"
proof -
  have p: "map_has ''A'' (processes run1)"
    by (simp add: run1_eq map_has_def)
  have r: "fst (spawnBot cfg_dev os_ok ''C'' ''3'' run1) = Normal"
    by (simp add: run1_eq pass_defs)
  have d: "distinct (map_keys (processes run1))"
    by (simp add: run1_eq map_keys_def)
  from spawnBot_idempotent [where a = "''A''" and st = run1 and cfg = cfg_dev and sys = os_ok
      and cid = "''9''"] p
  have 1: "spawnBot cfg_dev os_ok ''A'' ''9'' run1 = (Normal, run1)"
    by blast
  from spawnBot_idempotent [where a = "''C''" and st = run1 and cfg = cfg_dev and sys = os_ok
      and cid = "''3''" and sys' = os_ok and cid' = "''4''"] r d
  have 2: "spawnBot cfg_dev os_ok ''C'' ''4'' (snd (spawnBot cfg_dev os_ok ''C'' ''3'' run1)) =
        (Normal, snd (spawnBot cfg_dev os_ok ''C'' ''3'' run1))"
    and 3: "distinct (map_keys (processes (snd (spawnBot cfg_dev os_ok ''C'' ''3'' run1))))"
    by blast+
  from p r d 1 2 3 show ?thesis by blast
qed

text \<open>
  C5. When the fetch yields the empty sequence, and it does whenever the request has
  failed, one pass returns normally, sends \<open>SIGTERM\<close> to the handle of every entry of
  the registry, leaves the registry empty and spawns nothing.
\<close>

theorem reconcile_empty_fetch:
  "(fst (fetchActiveConfigs out st) = Inr [] \<longrightarrow>
      (\<exists>st'. reconcile cfg sys out st = (Normal, st')
         \<and> processes st' = []
         \<and> signals st' = signals st @ map (\<lambda>e. (handle (snd e), ''SIGTERM'')) (processes st)
         \<and> spawned st' = spawned st))
   \<and> (fetch_body out = Inl e \<longrightarrow> fst (fetchActiveConfigs out st) = Inr [])"
proof (intro conjI impI)
  assume empty: "fst (fetchActiveConfigs out st) = Inr []"
  obtain st0 where f: "fetchActiveConfigs out st = (Inr [], st0)"
    using empty by (cases "fetchActiveConfigs out st") simp
  from fetchActiveConfigs_state [OF f] obtain ls where st0: "st0 = st\<lparr>logs := logs st @ ls\<rparr>"
    by blast
  have "reconcile cfg sys out st = (Normal, stopMissing {} st0)"
    by (simp add: reconcile_def f reconcile_with_def)
  then show "\<exists>st'. reconcile cfg sys out st = (Normal, st')
         \<and> processes st' = []
         \<and> signals st' = signals st @ map (\<lambda>e. (handle (snd e), ''SIGTERM'')) (processes st)
         \<and> spawned st' = spawned st"
    by (simp add: stopMissing_effect st0)
next
  assume "fetch_body out = Inl e"
  then show "fst (fetchActiveConfigs out st) = Inr []"
    by (simp add: fetchActiveConfigs_def)
qed

theorem reconcile_empty_fetch_witness:
  "fetch_body Rejected = Inl FetchFailed
   \<and> fst (fetchActiveConfigs Rejected run1) = Inr []
   \<and> processes (snd (reconcile cfg_dev os_ok Rejected run1)) = []
   \<and> signals (snd (reconcile cfg_dev os_ok Rejected run1)) = [(0, ''SIGTERM''), (1, ''SIGTERM'')]
   \<and> spawned (snd (reconcile cfg_dev os_ok Rejected run1)) = spawned run1"
proof -
  have b: "fetch_body Rejected = Inl FetchFailed"
    by (simp add: fetch_body_def)
  from reconcile_empty_fetch [of Rejected run1 cfg_dev os_ok FetchFailed] b
  have e: "fst (fetchActiveConfigs Rejected run1) = Inr []"
    and "\<exists>st'. reconcile cfg_dev os_ok Rejected run1 = (Normal, st')
         \<and> processes st' = []
         \<and> signals st' = signals run1 @ map (\<lambda>e. (handle (snd e), ''SIGTERM'')) (processes run1)
         \<and> spawned st' = spawned run1"
    by blast+
  then show ?thesis using b
    by (auto simp: run1_eq)
qed

text \<open>
  C7. Let \<open>a\<close> be running as child \<open>ch\<close> and let the fetched list name \<open>a\<close>, with
  whatever client id. Then the pass, however it ends, leaves \<open>ch\<close> registered
  under \<open>a\<close> (so with the environment it was started with) and spawns no child for
  \<open>a\<close>. The signals of the pass are \<open>SIGTERM\<close> to the handles of exactly the
  entries whose key is not fetched, and none at all when the pass throws; so no entry
  of \<open>a\<close> is signalled, and where no other entry shares the handle of \<open>ch\<close>, that
  handle gets no signal. And two fetched lists that name the same identities in the
  same order, and differ in a client id only for identities that are running, lead to
  the same result of the pass: to the same state, spawns and signals.
\<close>

theorem reconcile_ignores_clientId:
  assumes running: "map_of (processes st) a = Some ch"
    and fetch: "fetchActiveConfigs out st = (Inr configs, st0)"
    and desired: "a \<in> agentId ` set configs"
  shows "(\<exists>r st' news.
            reconcile cfg sys out st = (r, st')
          \<and> map_of (processes st') a = Some ch
          \<and> spawned st' = spawned st @ news
          \<and> (\<forall>c\<in>set news. child_env c ''AGENT_ID'' \<noteq> Some a)
          \<and> signals st' = signals st @ map (\<lambda>e. (handle (snd e), ''SIGTERM''))
                (if r = Normal
                 then filter (\<lambda>e. fst e \<notin> agentId ` set configs) (processes st) else [])
          \<and> ((\<forall>e\<in>set (processes st). handle (snd e) = handle ch \<longrightarrow> fst e = a) \<longrightarrow>
                (handle ch, ''SIGTERM'') \<notin> set (drop (length (signals st)) (signals st'))))
       \<and> (list_all2 (\<lambda>c c'. agentId c' = agentId c \<and>
              (clientId c' \<noteq> clientId c \<longrightarrow> map_has (agentId c) (processes st))) cs cs' \<longrightarrow>
            reconcile_with cfg sys cs' st = reconcile_with cfg sys cs st)"
proof (rule conjI)
  let ?D = "agentId ` set configs"
  let ?stopped = "filter (\<lambda>e. fst e \<notin> ?D) (processes st)"
  from fetchActiveConfigs_state [OF fetch] obtain ls where
    st0: "st0 = st\<lparr>logs := logs st @ ls\<rparr>"
    by blast
  from reconcile_loop_shape [of cfg sys configs "{}" st0] obtain r D' es st1 where
    run: "reconcile_loop cfg sys configs {} st0 = (r, D', st1)"
    and st1: "st1 = st0\<lparr>processes := processes st0 @ es,
                logs := logs st0 @ map (\<lambda>e. Log Info ''Spawned Discord bot process'' (Some (fst e))) es,
                spawned := spawned st0 @ map snd es,
                exit_observers := exit_observers st0 @ map (\<lambda>e. (handle (snd e), fst e)) es\<rparr>"
    and keys: "set (map fst es) \<subseteq> ?D - set (map_keys (processes st0))"
    and envs: "\<forall>e\<in>set es. child_env (snd e) ''AGENT_ID'' = Some (fst e)"
    and des: "r = Normal \<longrightarrow> D' = {} \<union> ?D"
    by blast
  have p1: "processes st1 = processes st @ es"
    by (simp add: st1 st0)
  have m1: "map_of (processes st1) a = Some ch"
    using running by (simp add: p1 map_add_def)
  have s1: "signals st1 = signals st"
    by (simp add: st1 st0)
  have n1: "spawned st1 = spawned st @ map snd es"
    by (simp add: st1 st0)
  have "map_has a (processes st)"
    using running by (simp add: map_has_def)
  then have aR: "a \<in> set (map_keys (processes st))"
    by (simp only: map_has_keys)
  have e1: "\<forall>c\<in>set (map snd es). child_env c ''AGENT_ID'' \<noteq> Some a"
  proof
    fix c assume "c \<in> set (map snd es)"
    then obtain e where e: "e \<in> set es" and c: "c = snd e"
      by (metis imageE set_map)
    from e keys have "fst e \<notin> set (map_keys (processes st))"
      by (auto simp: st0)
    with aR have "fst e \<noteq> a"
      by blast
    with envs e show "child_env c ''AGENT_ID'' \<noteq> Some a"
      by (simp add: c)
  qed
  have quiet: "(handle ch, ''SIGTERM'') \<notin> set (map (\<lambda>e. (handle (snd e), ''SIGTERM'')) ?stopped)"
    if uniq: "\<forall>e\<in>set (processes st). handle (snd e) = handle ch \<longrightarrow> fst e = a"
    using uniq desired by auto
  show "\<exists>r st' news.
            reconcile cfg sys out st = (r, st')
          \<and> map_of (processes st') a = Some ch
          \<and> spawned st' = spawned st @ news
          \<and> (\<forall>c\<in>set news. child_env c ''AGENT_ID'' \<noteq> Some a)
          \<and> signals st' = signals st @ map (\<lambda>e. (handle (snd e), ''SIGTERM''))
                (if r = Normal then ?stopped else [])
          \<and> ((\<forall>e\<in>set (processes st). handle (snd e) = handle ch \<longrightarrow> fst e = a) \<longrightarrow>
                (handle ch, ''SIGTERM'') \<notin> set (drop (length (signals st)) (signals st')))"
  proof (cases r)
    case (Thrown x)
    have a1: "reconcile cfg sys out st = (r, st1)"
      by (simp add: reconcile_def fetch reconcile_with_def run Thrown)
    have a2: "signals st1 = signals st @ map (\<lambda>e. (handle (snd e), ''SIGTERM''))
                (if r = Normal then ?stopped else [])"
      by (simp add: s1 Thrown)
    have a3: "(handle ch, ''SIGTERM'') \<notin> set (drop (length (signals st)) (signals st1))"
      by (simp add: s1)
    from a1 m1 n1 e1 a2 a3 show ?thesis
      by blast
  next
    case Normal
    with des have D': "D' = ?D"
      by simp
    have keep: "filter (\<lambda>e. fst e \<in> ?D) es = es"
      using keys by (auto simp: filter_id_conv)
    have drop: "filter (\<lambda>e. fst e \<notin> ?D) es = []"
      using keys by (auto simp: filter_empty_conv)
    let ?st' = "stopMissing ?D st1"
    have b1: "reconcile cfg sys out st = (r, ?st')"
      by (simp add: reconcile_def fetch reconcile_with_def run Normal D')
    have b2: "map_of (processes ?st') a = Some ch"
      using m1 desired by (simp add: stopMissing_effect map_of_filter_key)
    have b3: "spawned ?st' = spawned st @ map snd es"
      by (simp add: stopMissing_effect n1)
    have b4: "signals ?st' = signals st @ map (\<lambda>e. (handle (snd e), ''SIGTERM''))
                (if r = Normal then ?stopped else [])"
      by (simp add: stopMissing_effect s1 p1 drop Normal)
    have b5: "(\<forall>e\<in>set (processes st). handle (snd e) = handle ch \<longrightarrow> fst e = a) \<longrightarrow>
                (handle ch, ''SIGTERM'') \<notin> set (drop (length (signals st)) (signals ?st'))"
      using quiet by (simp add: b4 Normal)
    from b1 b2 b3 e1 b4 b5 show ?thesis
      by blast
  qed
next
  show "list_all2 (\<lambda>c c'. agentId c' = agentId c \<and>
              (clientId c' \<noteq> clientId c \<longrightarrow> map_has (agentId c) (processes st))) cs cs' \<longrightarrow>
            reconcile_with cfg sys cs' st = reconcile_with cfg sys cs st"
    by (simp add: reconcile_with_def reconcile_loop_clientId)
qed

text \<open>
  In the example, \<open>A\<close> comes back with client id 7 instead of 1, \<open>B\<close> is dropped and
  \<open>C\<close> is new: \<open>A\<close> keeps child 0 with client id 1, and the only signal goes to
  child 1, which was \<open>B\<close>.
\<close>

theorem reconcile_ignores_clientId_witness:
  "map_of (processes run1) ''A'' =
     Some \<lparr>handle = 0, spawnfile = ''tsx'', spawnargs = [''watch'', ''src/index.ts''],
           child_env = bot_env cfg_dev ''A'' ''1''\<rparr>
   \<and> map_of (processes (snd (reconcile cfg_dev os_ok (listing [(''A'', ''7''), (''C'', ''3'')]) run1)))
        ''A'' =
     Some \<lparr>handle = 0, spawnfile = ''tsx'', spawnargs = [''watch'', ''src/index.ts''],
           child_env = bot_env cfg_dev ''A'' ''1''\<rparr>
   \<and> bot_env cfg_dev ''A'' ''1'' ''DISCORD_CLIENT_ID'' = Some ''1''
   \<and> signals run1 = []
   \<and> signals (snd (reconcile cfg_dev os_ok (listing [(''A'', ''7''), (''C'', ''3'')]) run1)) =
       [(1, ''SIGTERM'')]
   \<and> (0, ''SIGTERM'') \<notin>
       set (signals (snd (reconcile cfg_dev os_ok (listing [(''A'', ''7''), (''C'', ''3'')]) run1)))
   \<and> reconcile_with cfg_dev os_ok
        [\<lparr>agentId = ''A'', clientId = ''7''\<rparr>, \<lparr>agentId = ''C'', clientId = ''3''\<rparr>] run1 =
      reconcile_with cfg_dev os_ok
        [\<lparr>agentId = ''A'', clientId = ''1''\<rparr>, \<lparr>agentId = ''C'', clientId = ''3''\<rparr>] run1"
proof -
  let ?ch = "\<lparr>handle = 0, spawnfile = ''tsx'', spawnargs = [''watch'', ''src/index.ts''],
           child_env = bot_env cfg_dev ''A'' ''1''\<rparr>"
  let ?out = "listing [(''A'', ''7''), (''C'', ''3'')]"
  let ?cs = "[\<lparr>agentId = ''A'', clientId = ''1''\<rparr>, \<lparr>agentId = ''C'', clientId = ''3''\<rparr>]"
  let ?cs' = "[\<lparr>agentId = ''A'', clientId = ''7''\<rparr>, \<lparr>agentId = ''C'', clientId = ''3''\<rparr>]"
  have r: "map_of (processes run1) ''A'' = Some ?ch"
    by (simp add: run1_eq spawn_cmd_def spawn_args_def cfg_dev_def)
  have f: "fetchActiveConfigs ?out run1 = (Inr ?cs', run1)"
    by (simp add: fetch_listing)
  have d: "''A'' \<in> agentId ` set ?cs'"
    by simp
  have l: "list_all2 (\<lambda>c c'. agentId c' = agentId c \<and>
              (clientId c' \<noteq> clientId c \<longrightarrow> map_has (agentId c) (processes run1))) ?cs ?cs'"
    by (simp add: run1_eq map_has_def)
  have e: "bot_env cfg_dev ''A'' ''1'' ''DISCORD_CLIENT_ID'' = Some ''1''"
    by (simp add: bot_env_def)
  have s0: "signals run1 = []"
    by (simp add: run1_eq)
  have n: "fst (reconcile cfg_dev os_ok ?out run1) = Normal"
    by (simp add: run1_eq pass_defs)
  have stopped: "map (\<lambda>e. (handle (snd e), ''SIGTERM''))
                  (filter (\<lambda>e. fst e \<notin> agentId ` set ?cs') (processes run1)) =
                 [(1, ''SIGTERM'')]"
    by (simp add: run1_eq)
  note inst = reconcile_ignores_clientId [where st = run1 and a = "''A''" and ch = ?ch
      and out = ?out and configs = ?cs' and cfg = cfg_dev and sys = os_ok and cs = ?cs
      and cs' = ?cs', OF r f d]
  from inst [THEN conjunct1] obtain r' st' where
    run: "reconcile cfg_dev os_ok ?out run1 = (r', st')"
    and m: "map_of (processes st') ''A'' = Some ?ch"
    and sg: "signals st' = signals run1 @ map (\<lambda>e. (handle (snd e), ''SIGTERM''))
                (if r' = Normal
                 then filter (\<lambda>e. fst e \<notin> agentId ` set ?cs') (processes run1) else [])"
    and qu: "(\<forall>e\<in>set (processes run1). handle (snd e) = handle ?ch \<longrightarrow> fst e = ''A'') \<longrightarrow>
                (handle ?ch, ''SIGTERM'') \<notin> set (drop (length (signals run1)) (signals st'))"
    by blast
  have uq: "\<forall>e\<in>set (processes run1). handle (snd e) = handle ?ch \<longrightarrow> fst e = ''A''"
    by (simp add: run1_eq)
  have hc: "handle ?ch = 0"
    by simp
  from qu uq have "(handle ?ch, ''SIGTERM'') \<notin> set (drop (length (signals run1)) (signals st'))"
    by (rule mp)
  then have "(0, ''SIGTERM'') \<notin> set (signals st')"
    by (simp only: hc s0 list.size drop_0 not_False_eq_True)
  with run have z: "(0, ''SIGTERM'') \<notin>
       set (signals (snd (reconcile cfg_dev os_ok ?out run1)))"
    by (simp only: snd_conv not_False_eq_True)
  from run n have r': "r' = Normal"
    by simp
  from run m have k: "map_of (processes (snd (reconcile cfg_dev os_ok ?out run1))) ''A'' = Some ?ch"
    by (simp only: snd_conv)
  from sg have "signals st' = [(1, ''SIGTERM'')]"
    by (simp only: r' simp_thms if_True s0 stopped append_Nil)
  with run have g: "signals (snd (reconcile cfg_dev os_ok ?out run1)) = [(1, ''SIGTERM'')]"
    by (simp only: snd_conv)
  from inst [THEN conjunct2] l
  have q: "reconcile_with cfg_dev os_ok ?cs' run1 = reconcile_with cfg_dev os_ok ?cs run1"
    by (rule mp)
  show ?thesis
    by (rule conjI [OF r conjI [OF k conjI [OF e conjI [OF s0 conjI [OF g conjI [OF z q]]]]]])
qed

text \<open>
  C8. Every child that \<open>spawnBot\<close> starts gets the parent's environment with
  \<open>AGENT_ID\<close> and \<open>DISCORD_CLIENT_ID\<close> set to the identity and its client id and with
  \<open>DISCORD_TOKEN\<close> set to the empty string; every other variable is the parent's.
  The worker's \<open>resolveToken\<close> therefore finds no token in its environment, whatever
  the parent held, and goes on to the remote source.
\<close>

theorem spawnBot_child_env:
  assumes "\<not> map_has a (processes st)"
    and "sys (spawn_cmd cfg) (spawn_args cfg) (bot_env cfg a cid)"
  shows "\<exists>st' c. spawnBot cfg sys a cid st = (Normal, st')
           \<and> spawned st' = spawned st @ [c]
           \<and> map_of (processes st') a = Some c
           \<and> child_env c = (parent_env cfg)(''AGENT_ID'' \<mapsto> a, ''DISCORD_CLIENT_ID'' \<mapsto> cid,
                                            ''DISCORD_TOKEN'' \<mapsto> [])
           \<and> child_env c ''AGENT_ID'' = Some a
           \<and> child_env c ''DISCORD_CLIENT_ID'' = Some cid
           \<and> child_env c ''DISCORD_TOKEN'' = Some []
           \<and> (\<forall>k. k \<notin> {''AGENT_ID'', ''DISCORD_CLIENT_ID'', ''DISCORD_TOKEN''} \<longrightarrow>
                  child_env c k = parent_env cfg k)
           \<and> direct_token (child_env c) = None"
proof -
  let ?c = "new_child (spawn_cmd cfg) (spawn_args cfg) (bot_env cfg a cid) st"
  have "map_of (processes st) a = None"
    using assms(1) by (simp add: map_has_def)
  then have "map_of (processes st @ [(a, ?c)]) a = Some ?c"
    by (simp add: map_add_def)
  moreover have "child_env ?c = bot_env cfg a cid"
    by (simp add: new_child_def)
  moreover have "direct_token (bot_env cfg a cid) = None"
    by (simp add: direct_token_def bot_env_def)
  ultimately show ?thesis
    using spawnBot_absent_returns [of a st sys cfg cid] assms
    by (simp add: bot_env_def)
qed

theorem spawnBot_child_env_witness:
  "\<not> map_has ''C'' (processes run1)
   \<and> parent_env cfg_dev ''DISCORD_TOKEN'' = Some ''parent-secret''
   \<and> direct_token (parent_env cfg_dev) = Some ''parent-secret''
   \<and> child_env (the (map_of (processes (snd (spawnBot cfg_dev os_ok ''C'' ''3'' run1))) ''C''))
        ''DISCORD_TOKEN'' = Some []
   \<and> child_env (the (map_of (processes (snd (spawnBot cfg_dev os_ok ''C'' ''3'' run1))) ''C''))
        ''PATH'' = Some ''/usr/bin''
   \<and> direct_token
        (child_env (the (map_of (processes (snd (spawnBot cfg_dev os_ok ''C'' ''3'' run1))) ''C'')))
       = None"
proof -
  have a: "\<not> map_has ''C'' (processes run1)"
    by (simp add: run1_eq map_has_def)
  have o: "os_ok (spawn_cmd cfg_dev) (spawn_args cfg_dev) (bot_env cfg_dev ''C'' ''3'')"
    by (simp add: os_ok_def)
  have p: "parent_env cfg_dev ''DISCORD_TOKEN'' = Some ''parent-secret''
           \<and> parent_env cfg_dev ''PATH'' = Some ''/usr/bin''
           \<and> direct_token (parent_env cfg_dev) = Some ''parent-secret''"
    by (simp add: cfg_dev_def direct_token_def trim_def is_space_def)
  from spawnBot_child_env [where a = "''C''" and st = run1 and sys = os_ok and cfg = cfg_dev
      and cid = "''3''", OF a o]
  obtain st' c where r: "spawnBot cfg_dev os_ok ''C'' ''3'' run1 = (Normal, st')"
    and m: "map_of (processes st') ''C'' = Some c"
    and t: "child_env c ''DISCORD_TOKEN'' = Some []"
    and k: "\<forall>k. k \<notin> {''AGENT_ID'', ''DISCORD_CLIENT_ID'', ''DISCORD_TOKEN''} \<longrightarrow>
                  child_env c k = parent_env cfg_dev k"
    and d: "direct_token (child_env c) = None"
    by blast
  from k have "child_env c ''PATH'' = parent_env cfg_dev ''PATH''"
    by simp
  with p have "child_env c ''PATH'' = Some ''/usr/bin''"
    by simp
  with a p t d show ?thesis
    by (simp add: r m)
qed

text \<open>
  C10. For every request and every state, the handler answers with status 200 and
  the body \<open>{ok: true, processes: [...]}\<close> whose list holds the keys of the registry
  in its order, and it leaves the state, the registry included, as it was.
\<close>

theorem healthcheck_reports:
  "status (fst (healthcheck req st)) = 200
   \<and> content_type (fst (healthcheck req st)) = ''application/json''
   \<and> body (fst (healthcheck req st)) =
       JObj [(''ok'', JBool True), (''processes'', JArr (map JStr (map fst (processes st))))]
   \<and> get_prop (body (fst (healthcheck req st))) ''ok'' = Inr (JBool True)
   \<and> get_prop (body (fst (healthcheck req st))) ''processes'' =
       Inr (JArr (map JStr (map fst (processes st))))
   \<and> snd (healthcheck req st) = st"
  by (simp add: healthcheck_def map_keys_def)

text \<open>After the first pass of the example, the handler lists \<open>A\<close> and \<open>B\<close>.\<close>

theorem healthcheck_reports_witness:
  "status (fst (healthcheck \<lparr>req_method = ''GET'', req_url = ''/''\<rparr> run1)) = 200
   \<and> body (fst (healthcheck \<lparr>req_method = ''GET'', req_url = ''/''\<rparr> run1)) =
       JObj [(''ok'', JBool True), (''processes'', JArr [JStr ''A'', JStr ''B''])]
   \<and> map fst (processes (snd (healthcheck \<lparr>req_method = ''GET'', req_url = ''/''\<rparr> run1))) =
       [''A'', ''B'']
   \<and> body (fst (healthcheck \<lparr>req_method = ''POST'', req_url = ''/x''\<rparr> init)) =
       JObj [(''ok'', JBool True), (''processes'', JArr [])]"
proof -
  let ?req = "\<lparr>req_method = ''GET'', req_url = ''/''\<rparr>"
  let ?req' = "\<lparr>req_method = ''POST'', req_url = ''/x''\<rparr>"
  have k: "map fst (processes run1) = [''A'', ''B'']"
    by (simp add: run1_eq)
  have k0: "map fst (processes init) = []"
    by (simp add: init_def)
  note h = healthcheck_reports [of ?req run1]
  note h0 = healthcheck_reports [of ?req' init]
  have 1: "status (fst (healthcheck ?req run1)) = 200"
    by (rule h [THEN conjunct1])
  have 2: "body (fst (healthcheck ?req run1)) =
       JObj [(''ok'', JBool True), (''processes'', JArr [JStr ''A'', JStr ''B''])]"
    using h k by simp
  have 3: "map fst (processes (snd (healthcheck ?req run1))) = [''A'', ''B'']"
    using h k by simp
  have 4: "body (fst (healthcheck ?req' init)) =
       JObj [(''ok'', JBool True), (''processes'', JArr [])]"
    using h0 k0 by simp
  show ?thesis
    by (rule conjI [OF 1 conjI [OF 2 conjI [OF 3 4]]])
qed

text \<open>
  C6. Let \<open>a\<close> be running as child \<open>c\<close>, which carries the exit listener that
  \<open>spawnBot\<close> registered for it. When \<open>c\<close> exits, \<open>a\<close> is gone from the registry as
  soon as the listener has run. The next pass whose fetch still lists \<open>a\<close>, and whose
  \<open>spawn\<close> calls return, spawns a new child for \<open>a\<close> and registers it. This holds in
  every state: nothing counts exits or delays the relaunch.
\<close>

theorem crash_recovery:
  assumes running: "map_of (processes st) a = Some c"
    and obs: "(handle c, a) \<in> set (exit_observers st)"
    and fetch: "fetchActiveConfigs out (child_exit (handle c) st) = (Inr configs, st0)"
    and desired: "a \<in> agentId ` set configs"
    and ok: "\<forall>c\<in>set configs.
               sys (spawn_cmd cfg) (spawn_args cfg) (bot_env cfg (agentId c) (clientId c))"
  shows "\<not> map_has a (processes (child_exit (handle c) st))
         \<and> (\<exists>st' c' news. reconcile cfg sys out (child_exit (handle c) st) = (Normal, st')
               \<and> map_of (processes st') a = Some c'
               \<and> spawned st' = spawned st @ news \<and> c' \<in> set news
               \<and> child_env c' ''AGENT_ID'' = Some a)"
proof -
  let ?s = "child_exit (handle c) st"
  have gone: "\<not> map_has a (processes ?s)"
    using obs by (rule child_exit_removes)
  from reconcile_pass_starts [where out = out and st = ?s and sys = sys and cfg = cfg,
      OF fetch ok desired gone]
  have "\<exists>st' c' news. reconcile cfg sys out ?s = (Normal, st')
               \<and> map_of (processes st') a = Some c'
               \<and> spawned st' = spawned st @ news \<and> c' \<in> set news
               \<and> child_env c' ''AGENT_ID'' = Some a"
    by (simp only: child_exit_frame)
  with gone show ?thesis
    by (rule conjI)
qed

theorem crash_recovery_witness:
  "map_of (processes run2) ''B'' =
     Some \<lparr>handle = 1, spawnfile = spawn_cmd cfg_dev, spawnargs = spawn_args cfg_dev,
           child_env = bot_env cfg_dev ''B'' ''2''\<rparr>
   \<and> map_keys (processes (child_exit 1 run2)) = [''C'']
   \<and> \<not> map_has ''B'' (processes (child_exit 1 run2))
   \<and> map_has ''B'' (processes (snd
        (reconcile cfg_dev os_ok (listing [(''B'', ''2''), (''C'', ''3'')]) (child_exit 1 run2))))"
proof -
  let ?c = "\<lparr>handle = 1, spawnfile = spawn_cmd cfg_dev, spawnargs = spawn_args cfg_dev,
           child_env = bot_env cfg_dev ''B'' ''2''\<rparr>"
  let ?out = "listing [(''B'', ''2''), (''C'', ''3'')]"
  let ?cs = "[\<lparr>agentId = ''B'', clientId = ''2''\<rparr>, \<lparr>agentId = ''C'', clientId = ''3''\<rparr>]"
  have r: "map_of (processes run2) ''B'' = Some ?c"
    by (simp add: run2_eq)
  have o: "(handle ?c, ''B'') \<in> set (exit_observers run2)"
    by (simp add: run2_eq)
  have f: "fetchActiveConfigs ?out (child_exit (handle ?c) run2) = (Inr ?cs, child_exit (handle ?c) run2)"
    by (simp add: fetch_listing)
  have d: "''B'' \<in> agentId ` set ?cs"
    by simp
  have k: "\<forall>c\<in>set ?cs. os_ok (spawn_cmd cfg_dev) (spawn_args cfg_dev)
             (bot_env cfg_dev (agentId c) (clientId c))"
    by (simp add: os_ok_def)
  have x: "map_keys (processes (child_exit 1 run2)) = [''C'']"
    by (simp add: run2_eq child_exit_def on_exit_def log_line_def map_delete_def map_keys_def Let_def)
  note inst = crash_recovery [where st = run2 and a = "''B''" and c = ?c and out = ?out
      and configs = ?cs and sys = os_ok and cfg = cfg_dev, OF r o f d k]
  have hc: "handle ?c = 1"
    by simp
  have g: "\<not> map_has ''B'' (processes (child_exit 1 run2))"
    using inst [THEN conjunct1] by (simp only: hc not_False_eq_True)
  from inst [THEN conjunct2] obtain st' c' where
    "reconcile cfg_dev os_ok ?out (child_exit (handle ?c) run2) = (Normal, st')"
    and "map_of (processes st') ''B'' = Some c'"
    by blast
  then have b: "map_has ''B'' (processes (snd (reconcile cfg_dev os_ok ?out (child_exit 1 run2))))"
    by (simp only: hc map_has_def snd_conv option.distinct not_False_eq_True)
  show ?thesis
    by (rule conjI [OF r conjI [OF x conjI [OF g b]]])
qed

text \<open>
  C9. The exit listener deletes by key and does not look at the handle. Let the
  listener of the child with handle \<open>h\<close> have been registered for identity \<open>a\<close>, and
  let the registry hold another child \<open>c\<close> under \<open>a\<close>, as it does when \<open>a\<close> was stopped
  and started again before the first child reported its exit. When the child \<open>h\<close>
  exits, the entry of \<open>c\<close> is removed, although \<open>c\<close> has not exited and nothing is
  signalled.
\<close>

theorem exit_deletes_newer_entry:
  assumes obs: "(h, a) \<in> set (exit_observers st)"
    and newer: "map_of (processes st) a = Some c"
    and other: "handle c \<noteq> h"
  shows "\<not> map_has a (processes (child_exit h st))
         \<and> signals (child_exit h st) = signals st
         \<and> spawned (child_exit h st) = spawned st"
  using child_exit_removes [OF obs] by (simp add: child_exit_frame)

theorem exit_deletes_newer_entry_witness:
  "map_of (processes relaunched) ''A'' =
     Some \<lparr>handle = 1, spawnfile = spawn_cmd cfg_dev, spawnargs = spawn_args cfg_dev,
           child_env = bot_env cfg_dev ''A'' ''1''\<rparr>
   \<and> (0, ''A'') \<in> set (exit_observers relaunched)
   \<and> signals relaunched = [(0, ''SIGTERM'')]
   \<and> processes (child_exit 0 relaunched) = []
   \<and> signals (child_exit 0 relaunched) = [(0, ''SIGTERM'')]"
proof -
  let ?c = "\<lparr>handle = 1, spawnfile = spawn_cmd cfg_dev, spawnargs = spawn_args cfg_dev,
           child_env = bot_env cfg_dev ''A'' ''1''\<rparr>"
  have o: "(0, ''A'') \<in> set (exit_observers relaunched)"
    by (simp add: relaunched_eq)
  have n: "map_of (processes relaunched) ''A'' = Some ?c"
    by (simp add: relaunched_eq)
  have h: "handle ?c \<noteq> 0"
    by simp
  have s: "signals relaunched = [(0, ''SIGTERM'')]"
    by (simp add: relaunched_eq)
  have p: "processes (child_exit 0 relaunched) = []"
    by (simp add: relaunched_eq child_exit_def on_exit_def log_line_def map_delete_def Let_def)
  from exit_deletes_newer_entry [OF o n h]
  have "signals (child_exit 0 relaunched) = signals relaunched"
    by (rule conjunct1 [OF conjunct2])
  then have q: "signals (child_exit 0 relaunched) = [(0, ''SIGTERM'')]"
    by (simp only: s)
  show ?thesis
    by (intro conjI) (rule n o s p q)+
qed

text \<open>
  C2, as the code has it. \<open>fetchActiveConfigs\<close> always returns a list to its caller
  and never an exception. It appends one error line to the log and returns the empty
  list when the request is rejected, when the status is outside 200-299, when the body
  is not JSON, when the value in the place of the list is truthy and not an array, and
  when the array has an element that the callback of \<open>map\<close> cannot convert, as it
  cannot convert \<open>null\<close>. When the value in the place of the list is falsy, it is read
  as the empty list (\<open>list || []\<close>): the result is empty and nothing is logged. Every
  other array gives one configuration per element, its fields the \<open>String(...)\<close> of
  the element's \<open>agentId\<close> and \<open>clientId\<close> (so \<open>undefined\<close> for a missing one), and
  nothing is logged. These cases are all there are.
\<close>

theorem fetchActiveConfigs_outcomes:
  "(\<exists>cs st'. fetchActiveConfigs out st = (Inr cs, st'))
   \<and> (out = Rejected
        \<or> (\<exists>s b. out = Response s b \<and> \<not> (200 \<le> s \<and> s \<le> 299))
        \<or> (\<exists>s. out = Response s None)
        \<or> (\<exists>s d. out = Response s (Some d) \<and> truthy (fetched_list d)
               \<and> (\<forall>xs. fetched_list d \<noteq> JArr xs))
        \<or> (\<exists>s d xs x e. out = Response s (Some d) \<and> fetched_list d = JArr xs
               \<and> x \<in> set xs \<and> to_config x = Inl e) \<longrightarrow>
        fetchActiveConfigs out st =
          (Inr [],
           st\<lparr>logs := logs st @
                 [Log Error ''Failed to fetch active Discord configs from Convex'' None]\<rparr>))
   \<and> (out = Response s (Some d) \<and> 200 \<le> s \<and> s \<le> 299 \<and> \<not> truthy (fetched_list d) \<longrightarrow>
        fetchActiveConfigs out st = (Inr [], st))
   \<and> (out = Response s (Some d) \<and> 200 \<le> s \<and> s \<le> 299 \<and> fetched_list d = JArr xs
        \<and> list_all2 (\<lambda>x r. \<exists>a b. get_prop x ''agentId'' = Inr a \<and> js_String a = Inr (agentId r)
                             \<and> get_prop x ''clientId'' = Inr b \<and> js_String b = Inr (clientId r))
              xs (rs :: config list) \<longrightarrow>
        fetchActiveConfigs out st = (Inr rs, st) \<and> length rs = length xs)
   \<and> to_config JNull = Inl TypeError
   \<and> to_config (JObj []) = Inr \<lparr>agentId = ''undefined'', clientId = ''undefined''\<rparr>"
proof (intro conjI impI)
  show "\<exists>cs st'. fetchActiveConfigs out st = (Inr cs, st')"
    by (cases "fetch_body out") (simp_all add: fetchActiveConfigs_def)
next
  assume failed: "out = Rejected
        \<or> (\<exists>s b. out = Response s b \<and> \<not> (200 \<le> s \<and> s \<le> 299))
        \<or> (\<exists>s. out = Response s None)
        \<or> (\<exists>s d. out = Response s (Some d) \<and> truthy (fetched_list d)
               \<and> (\<forall>xs. fetched_list d \<noteq> JArr xs))
        \<or> (\<exists>s d xs x e. out = Response s (Some d) \<and> fetched_list d = JArr xs
               \<and> x \<in> set xs \<and> to_config x = Inl e)"
  have "\<exists>e. fetch_body out = Inl e"
    using failed
  proof (elim disjE exE conjE)
    assume "out = Rejected"
    then show ?thesis by (simp add: fetch_body_def)
  next
    fix s b assume "out = Response s b" and "\<not> (200 \<le> s \<and> s \<le> 299)"
    then show ?thesis by (simp add: fetch_body_def resp_ok_def)
  next
    fix s assume "out = Response s None"
    then show ?thesis by (simp add: fetch_body_def)
  next
    fix s d assume "out = Response s (Some d)" and "truthy (fetched_list d)"
      and "\<forall>xs. fetched_list d \<noteq> JArr xs"
    then show ?thesis by (simp add: fetch_body_def decode_not_array)
  next
    fix s d xs x e
    assume "out = Response s (Some d)" and "fetched_list d = JArr xs"
      and "x \<in> set xs" and "to_config x = Inl e"
    then show ?thesis
      by (simp add: fetch_body_def decode_array to_configs_fails)
  qed
  then show "fetchActiveConfigs out st =
          (Inr [],
           st\<lparr>logs := logs st @
                 [Log Error ''Failed to fetch active Discord configs from Convex'' None]\<rparr>)"
    by (auto simp: fetchActiveConfigs_def log_line_def)
next
  assume "out = Response s (Some d) \<and> 200 \<le> s \<and> s \<le> 299 \<and> \<not> truthy (fetched_list d)"
  then show "fetchActiveConfigs out st = (Inr [], st)"
    by (auto simp: fetchActiveConfigs_def fetch_body_def resp_ok_def decode_falsy)
next
  assume a: "out = Response s (Some d) \<and> 200 \<le> s \<and> s \<le> 299 \<and> fetched_list d = JArr xs
        \<and> list_all2 (\<lambda>x r. \<exists>a b. get_prop x ''agentId'' = Inr a \<and> js_String a = Inr (agentId r)
                             \<and> get_prop x ''clientId'' = Inr b \<and> js_String b = Inr (clientId r))
              xs rs"
  then have "list_all2 (\<lambda>x r. to_config x = Inr r) xs rs"
    by (auto elim!: list_all2_mono intro: to_config_fields)
  then have "to_configs xs = Inr rs"
    by (rule to_configs_all)
  with a show "fetchActiveConfigs out st = (Inr rs, st)"
    by (auto simp: fetchActiveConfigs_def fetch_body_def resp_ok_def decode_array)
  from a show "length rs = length xs"
    by (auto dest: list_all2_lengthD)
next
  show "to_config JNull = Inl TypeError"
    by (simp add: to_config_def)
next
  show "to_config (JObj []) = Inr \<lparr>agentId = ''undefined'', clientId = ''undefined''\<rparr>"
    by (simp add: to_config_def)
qed

theorem fetchActiveConfigs_outcomes_witness:
  "fetchActiveConfigs Rejected
     \<lparr>processes = [], logs = [], spawned = [], signals = [], exit_observers = []\<rparr> =
     (Inr [], \<lparr>processes = [],
               logs = [Log Error ''Failed to fetch active Discord configs from Convex'' None],
               spawned = [], signals = [], exit_observers = []\<rparr>)
   \<and> fetchActiveConfigs (Response 500 (Some (JArr [])))
     \<lparr>processes = [], logs = [], spawned = [], signals = [], exit_observers = []\<rparr> =
     (Inr [], \<lparr>processes = [],
               logs = [Log Error ''Failed to fetch active Discord configs from Convex'' None],
               spawned = [], signals = [], exit_observers = []\<rparr>)
   \<and> fetchActiveConfigs (Response 200 None)
     \<lparr>processes = [], logs = [], spawned = [], signals = [], exit_observers = []\<rparr> =
     (Inr [], \<lparr>processes = [],
               logs = [Log Error ''Failed to fetch active Discord configs from Convex'' None],
               spawned = [], signals = [], exit_observers = []\<rparr>)
   \<and> fetchActiveConfigs (Response 200 (Some (JObj [(''status'', JStr ''error'')])))
     \<lparr>processes = [], logs = [], spawned = [], signals = [], exit_observers = []\<rparr> =
     (Inr [], \<lparr>processes = [],
               logs = [Log Error ''Failed to fetch active Discord configs from Convex'' None],
               spawned = [], signals = [], exit_observers = []\<rparr>)
   \<and> fetchActiveConfigs (Response 200 (Some (JObj [(''value'', JArr [JNull])])))
     \<lparr>processes = [], logs = [], spawned = [], signals = [], exit_observers = []\<rparr> =
     (Inr [], \<lparr>processes = [],
               logs = [Log Error ''Failed to fetch active Discord configs from Convex'' None],
               spawned = [], signals = [], exit_observers = []\<rparr>)
   \<and> fetchActiveConfigs (Response 200 (Some (JObj [(''value'', JBool False)])))
     \<lparr>processes = [], logs = [], spawned = [], signals = [], exit_observers = []\<rparr> =
     (Inr [], \<lparr>processes = [], logs = [], spawned = [], signals = [], exit_observers = []\<rparr>)
   \<and> fetchActiveConfigs (Response 200 (Some (JObj [(''value'',
         JArr [JObj [(''agentId'', JStr ''A''), (''clientId'', JNum ''12'')], JObj []])])))
     \<lparr>processes = [], logs = [], spawned = [], signals = [], exit_observers = []\<rparr> =
     (Inr [\<lparr>agentId = ''A'', clientId = ''12''\<rparr>,
           \<lparr>agentId = ''undefined'', clientId = ''undefined''\<rparr>],
      \<lparr>processes = [], logs = [], spawned = [], signals = [], exit_observers = []\<rparr>)"
proof -
  let ?s = "\<lparr>processes = [], logs = [], spawned = [], signals = [], exit_observers = []\<rparr>"
  let ?l = "\<lparr>processes = [],
             logs = [Log Error ''Failed to fetch active Discord configs from Convex'' None],
             spawned = [], signals = [], exit_observers = []\<rparr>"
  let ?obj = "JObj [(''status'', JStr ''error'')]"
  let ?nul = "JObj [(''value'', JArr [JNull])]"
  let ?fal = "JObj [(''value'', JBool False)]"
  let ?rec = "JObj [(''agentId'', JStr ''A''), (''clientId'', JNum ''12'')]"
  let ?good = "JObj [(''value'', JArr [?rec, JObj []])]"
  let ?rs = "[\<lparr>agentId = ''A'', clientId = ''12''\<rparr>,
              \<lparr>agentId = ''undefined'', clientId = ''undefined''\<rparr>]"
  have upd: "?s\<lparr>logs := logs ?s @
               [Log Error ''Failed to fetch active Discord configs from Convex'' None]\<rparr> = ?l"
    by simp
  have bad: "\<not> (200 \<le> (500::nat) \<and> (500::nat) \<le> 299)"
    by simp
  have obj: "truthy (fetched_list ?obj) \<and> (\<forall>xs. fetched_list ?obj \<noteq> JArr xs)"
    by (simp add: fetched_list_def nullish_def)
  have nul: "fetched_list ?nul = JArr [JNull] \<and> JNull \<in> set [JNull]"
    by (simp add: fetched_list_def nullish_def)
  have fal: "(200::nat) \<le> 200 \<and> (200::nat) \<le> 299 \<and> \<not> truthy (fetched_list ?fal)"
    by (simp add: fetched_list_def nullish_def)
  have good: "(200::nat) \<le> 200 \<and> (200::nat) \<le> 299 \<and> fetched_list ?good = JArr [?rec, JObj []]"
    by (simp add: fetched_list_def nullish_def)
  have recs: "list_all2 (\<lambda>x r. \<exists>a b. get_prop x ''agentId'' = Inr a \<and> js_String a = Inr (agentId r)
                             \<and> get_prop x ''clientId'' = Inr b \<and> js_String b = Inr (clientId r))
              [?rec, JObj []] ?rs"
    by simp
  have n: "to_config JNull = Inl TypeError"
    by (rule fetchActiveConfigs_outcomes [where out = Rejected and st = ?s,
          THEN conjunct2, THEN conjunct2, THEN conjunct2, THEN conjunct2, THEN conjunct1])
  have 1: "fetchActiveConfigs Rejected ?s = (Inr [], ?l)"
    unfolding upd [symmetric]
    by (rule mp [OF fetchActiveConfigs_outcomes [where out = Rejected and st = ?s,
          THEN conjunct2, THEN conjunct1]])
       simp
  have 2: "fetchActiveConfigs (Response 500 (Some (JArr []))) ?s = (Inr [], ?l)"
    unfolding upd [symmetric]
    by (rule mp [OF fetchActiveConfigs_outcomes [where out = "Response 500 (Some (JArr []))"
          and st = ?s, THEN conjunct2, THEN conjunct1]])
       simp
  have 3: "fetchActiveConfigs (Response 200 None) ?s = (Inr [], ?l)"
    unfolding upd [symmetric]
    by (rule mp [OF fetchActiveConfigs_outcomes [where out = "Response 200 None"
          and st = ?s, THEN conjunct2, THEN conjunct1]])
       simp
  have 4: "fetchActiveConfigs (Response 200 (Some ?obj)) ?s = (Inr [], ?l)"
    unfolding upd [symmetric]
    by (rule mp [OF fetchActiveConfigs_outcomes [where out = "Response 200 (Some ?obj)"
          and st = ?s, THEN conjunct2, THEN conjunct1]])
       (simp add: obj)
  have 5: "fetchActiveConfigs (Response 200 (Some ?nul)) ?s = (Inr [], ?l)"
    unfolding upd [symmetric]
    by (rule mp [OF fetchActiveConfigs_outcomes [where out = "Response 200 (Some ?nul)"
          and st = ?s, THEN conjunct2, THEN conjunct1]])
       (simp add: nul n)
  have 6: "fetchActiveConfigs (Response 200 (Some ?fal)) ?s = (Inr [], ?s)"
    by (rule mp [OF fetchActiveConfigs_outcomes [where out = "Response 200 (Some ?fal)"
          and st = ?s and s = 200 and d = ?fal,
          THEN conjunct2, THEN conjunct2, THEN conjunct1]])
       (simp add: fal)
  have "fetchActiveConfigs (Response 200 (Some ?good)) ?s = (Inr ?rs, ?s)
        \<and> length ?rs = length [?rec, JObj []]"
    by (rule mp [OF fetchActiveConfigs_outcomes [where out = "Response 200 (Some ?good)"
          and st = ?s and s = 200 and d = ?good and xs = "[?rec, JObj []]" and rs = ?rs,
          THEN conjunct2, THEN conjunct2, THEN conjunct2, THEN conjunct1]])
       (simp add: good)
  then have 7: "fetchActiveConfigs (Response 200 (Some ?good)) ?s = (Inr ?rs, ?s)"
    by (rule conjunct1)
  show ?thesis
    by (rule conjI [OF 1 conjI [OF 2 conjI [OF 3 conjI [OF 4 conjI [OF 5 conjI [OF 6 7]]]]]])
qed

text \<open>
  C2, as the claim states it, fails: these three bodies do not decode as a list of
  records, yet nothing is logged for any of them, and the third gives a sequence that
  is not empty.
\<close>

theorem fetch_unlogged_nonlist:
  "fetchActiveConfigs (Response 200 (Some JNull))
     \<lparr>processes = [], logs = [], spawned = [], signals = [], exit_observers = []\<rparr> =
     (Inr [], \<lparr>processes = [], logs = [], spawned = [], signals = [], exit_observers = []\<rparr>)
   \<and> fetchActiveConfigs (Response 200 (Some (JObj [(''value'', JNum ''0'')])))
     \<lparr>processes = [], logs = [], spawned = [], signals = [], exit_observers = []\<rparr> =
     (Inr [], \<lparr>processes = [], logs = [], spawned = [], signals = [], exit_observers = []\<rparr>)
   \<and> fetchActiveConfigs (Response 200 (Some (JObj [(''value'', JArr [JObj []])])))
     \<lparr>processes = [], logs = [], spawned = [], signals = [], exit_observers = []\<rparr> =
     (Inr [\<lparr>agentId = ''undefined'', clientId = ''undefined''\<rparr>],
      \<lparr>processes = [], logs = [], spawned = [], signals = [], exit_observers = []\<rparr>)"
  by (simp add: fetchActiveConfigs_def fetch_body_def resp_ok_def decode_def fetched_list_def
      nullish_def to_config_def)

text \<open>
  C4, as the code has it. Let \<open>spawn\<close> throw for one fetched identity \<open>c\<close> that is not
  running, and return for the identities fetched before it. Nothing in the pass
  catches the exception: the pass ends at \<open>c\<close> and throws. The identities before \<open>c\<close>
  have been started as in any pass; \<open>c\<close> and the identities after it are not started,
  and nothing is stopped. \<open>c\<close> stays absent from the registry, so the next pass, if
  \<open>spawn\<close> returns then, starts it. A pass started by the timer gets its exception
  logged by the \<open>unhandledRejection\<close> handler; when it is the first pass, \<open>main\<close> logs
  it and exits with code 1. A failure that a child reports by its \<open>'error'\<close> event is
  logged by the \<open>uncaughtException\<close> handler and leaves the registry as it is.
\<close>

theorem spawn_throw_ends_pass:
  assumes fetch: "fetchActiveConfigs out st = (Inr (pre @ c # post), st0)"
    and pre_ok: "\<forall>p\<in>set pre.
               sys (spawn_cmd cfg) (spawn_args cfg) (bot_env cfg (agentId p) (clientId p))"
    and absent: "\<not> map_has (agentId c) (processes st)"
    and fresh: "agentId c \<notin> agentId ` set pre"
    and fails: "\<not> sys (spawn_cmd cfg) (spawn_args cfg) (bot_env cfg (agentId c) (clientId c))"
  shows "\<exists>st1 started.
           reconcile cfg sys out st = (Thrown SpawnFailed, st1)
         \<and> processes st1 = processes st @ started
         \<and> spawned st1 = spawned st @ map snd started
         \<and> distinct (map fst started)
         \<and> set (map fst started) = agentId ` set pre - set (map_keys (processes st))
         \<and> signals st1 = signals st
         \<and> \<not> map_has (agentId c) (processes st1)
         \<and> interval_tick cfg sys out st = log_line Error ''UnhandledRejection'' None st1
         \<and> (st = log_line Info ''Starting Discord supervisor'' None init \<longrightarrow>
                main_start cfg sys out = (log_line Fatal ''Supervisor crashed'' None st1, Some 1))
         \<and> (\<forall>sys'. (\<forall>p\<in>set (pre @ c # post).
                        sys' (spawn_cmd cfg) (spawn_args cfg) (bot_env cfg (agentId p) (clientId p))) \<longrightarrow>
                (\<exists>st' c' news. reconcile cfg sys' out (interval_tick cfg sys out st) = (Normal, st')
                    \<and> map_of (processes st') (agentId c) = Some c'
                    \<and> spawned st' = spawned st1 @ news \<and> c' \<in> set news))
         \<and> processes (child_error h st) = processes st
         \<and> logs (child_error h st) = logs st @ [Log Error ''UncaughtException'' None]"
proof -
  let ?cs = "pre @ c # post"
  from fetchActiveConfigs_state [OF fetch] obtain ls where
    st0: "st0 = st\<lparr>logs := logs st @ ls\<rparr>"
    and again: "\<And>s. fetchActiveConfigs out s = (Inr ?cs, s\<lparr>logs := logs s @ ls\<rparr>)"
    by blast
  have absent0: "\<not> map_has (agentId c) (processes st0)"
    using absent by (simp add: st0)
  from reconcile_with_throws [where pre = pre and sys = sys and cfg = cfg and c = c and st = st0
      and post = post, OF pre_ok absent0 fresh fails]
  obtain es st1 where
    run: "reconcile_with cfg sys ?cs st0 = (Thrown SpawnFailed, st1)"
    and st1: "st1 = st0\<lparr>processes := processes st0 @ es,
                logs := logs st0 @ map (\<lambda>e. Log Info ''Spawned Discord bot process'' (Some (fst e))) es,
                spawned := spawned st0 @ map snd es,
                exit_observers := exit_observers st0 @ map (\<lambda>e. (handle (snd e), fst e)) es\<rparr>"
    and dist: "distinct (map fst es)"
    and keys: "set (map fst es) = agentId ` set pre - set (map_keys (processes st0))"
    by blast
  have c1: "reconcile cfg sys out st = (Thrown SpawnFailed, st1)"
    by (simp add: reconcile_def fetch run)
  have c2: "processes st1 = processes st @ es"
    by (simp add: st1 st0)
  have c3: "spawned st1 = spawned st @ map snd es"
    by (simp add: st1 st0)
  have c5: "set (map fst es) = agentId ` set pre - set (map_keys (processes st))"
    using keys by (simp add: st0)
  have c6: "signals st1 = signals st"
    by (simp add: st1 st0)
  have "set (map_keys (processes st1)) = set (map_keys (processes st)) \<union> set (map fst es)"
    by (simp add: c2 map_keys_def)
  with absent fresh c5 have c7: "\<not> map_has (agentId c) (processes st1)"
    by (simp add: map_has_keys del: set_map)
  have c8: "interval_tick cfg sys out st = log_line Error ''UnhandledRejection'' None st1"
    by (simp add: interval_tick_def c1)
  have c9: "st = log_line Info ''Starting Discord supervisor'' None init \<longrightarrow>
              main_start cfg sys out = (log_line Fatal ''Supervisor crashed'' None st1, Some 1)"
    using c1 by (auto simp: main_start_def)
  have c10: "\<exists>st' c' news. reconcile cfg sys' out (interval_tick cfg sys out st) = (Normal, st')
                    \<and> map_of (processes st') (agentId c) = Some c'
                    \<and> spawned st' = spawned st1 @ news \<and> c' \<in> set news"
    if ok': "\<forall>p\<in>set ?cs.
               sys' (spawn_cmd cfg) (spawn_args cfg) (bot_env cfg (agentId p) (clientId p))"
    for sys'
  proof -
    let ?s2 = "log_line Error ''UnhandledRejection'' None st1"
    have f2: "fetchActiveConfigs out ?s2 = (Inr ?cs, ?s2\<lparr>logs := logs ?s2 @ ls\<rparr>)"
      by (rule again)
    have d2: "agentId c \<in> agentId ` set ?cs"
      by simp
    have a2: "\<not> map_has (agentId c) (processes ?s2)"
      using c7 by (simp add: log_line_def)
    from reconcile_pass_starts [where out = out and st = ?s2 and sys = sys' and cfg = cfg
        and a = "agentId c", OF f2 ok' d2 a2]
    obtain st' c' news where "reconcile cfg sys' out ?s2 = (Normal, st')"
      and "map_of (processes st') (agentId c) = Some c'"
      and "spawned st' = spawned ?s2 @ news" and "c' \<in> set news"
      by blast
    then show ?thesis
      by (auto simp: c8 log_line_def)
  qed
  have c11: "processes (child_error h st) = processes st
         \<and> logs (child_error h st) = logs st @ [Log Error ''UncaughtException'' None]"
    by (simp add: child_error_def log_line_def)
  from c1 c2 c3 dist c5 c6 c7 c8 c9 c10 c11 show ?thesis
    by blast
qed

theorem spawn_throw_ends_pass_witness:
  "fst (reconcile cfg_dev os_no_A (listing [(''B'', ''2''), (''A'', ''1''), (''C'', ''3'')]) init) =
     Thrown SpawnFailed
   \<and> map_keys (processes
        (interval_tick cfg_dev os_no_A (listing [(''B'', ''2''), (''A'', ''1''), (''C'', ''3'')]) init)) =
       [''B'']
   \<and> map_has ''A'' (processes (snd
        (reconcile cfg_dev os_ok (listing [(''B'', ''2''), (''A'', ''1''), (''C'', ''3'')])
          (interval_tick cfg_dev os_no_A (listing [(''B'', ''2''), (''A'', ''1''), (''C'', ''3'')]) init))))"
proof -
  let ?out = "listing [(''B'', ''2''), (''A'', ''1''), (''C'', ''3'')]"
  let ?B = "\<lparr>agentId = ''B'', clientId = ''2''\<rparr>"
  let ?A = "\<lparr>agentId = ''A'', clientId = ''1''\<rparr>"
  let ?C = "\<lparr>agentId = ''C'', clientId = ''3''\<rparr>"
  have f: "fetchActiveConfigs ?out init = (Inr ([?B] @ ?A # [?C]), init)"
    by (simp add: fetch_listing)
  have p: "\<forall>p\<in>set [?B]. os_no_A (spawn_cmd cfg_dev) (spawn_args cfg_dev)
             (bot_env cfg_dev (agentId p) (clientId p))"
    by (simp add: os_no_A_def bot_env_def)
  have a: "\<not> map_has (agentId ?A) (processes init)"
    by (simp add: map_has_def init_def)
  have n: "agentId ?A \<notin> agentId ` set [?B]"
    by simp
  have x: "\<not> os_no_A (spawn_cmd cfg_dev) (spawn_args cfg_dev)
             (bot_env cfg_dev (agentId ?A) (clientId ?A))"
    by (simp add: os_no_A_def bot_env_def)
  have k: "\<forall>p\<in>set ([?B] @ ?A # [?C]). os_ok (spawn_cmd cfg_dev) (spawn_args cfg_dev)
             (bot_env cfg_dev (agentId p) (clientId p))"
    by (simp add: os_ok_def)
  have e: "map_keys (processes (interval_tick cfg_dev os_no_A ?out init)) = [''B'']"
    by (simp add: init_def pass_defs os_no_A_def bot_env_def map_keys_def)
  show ?thesis
    using spawn_throw_ends_pass [where out = ?out and st = init and pre = "[?B]" and c = ?A
        and post = "[?C]" and sys = os_no_A and cfg = cfg_dev and h = 0, OF f p a n x]
  proof (elim exE conjE)
    fix st1 started
    assume r: "reconcile cfg_dev os_no_A ?out init = (Thrown SpawnFailed, st1)"
      and again: "\<forall>sys'. (\<forall>p\<in>set ([?B] @ ?A # [?C]).
                        sys' (spawn_cmd cfg_dev) (spawn_args cfg_dev)
                          (bot_env cfg_dev (agentId p) (clientId p))) \<longrightarrow>
                (\<exists>st' c' news. reconcile cfg_dev sys' ?out (interval_tick cfg_dev os_no_A ?out init) =
                      (Normal, st')
                    \<and> map_of (processes st') (agentId ?A) = Some c'
                    \<and> spawned st' = spawned st1 @ news \<and> c' \<in> set news)"
    from again k obtain st' c' where
      "reconcile cfg_dev os_ok ?out (interval_tick cfg_dev os_no_A ?out init) = (Normal, st')"
      and "map_of (processes st') (agentId ?A) = Some c'"
      by blast
    then have m: "map_has ''A'' (processes (snd
        (reconcile cfg_dev os_ok ?out (interval_tick cfg_dev os_no_A ?out init))))"
      by (simp add: map_has_def)
    from r have t: "fst (reconcile cfg_dev os_no_A ?out init) = Thrown SpawnFailed"
      by simp
    show ?thesis
      by (rule conjI [OF t conjI [OF e m]])
  qed
qed

text \<open>
  C4, as the claim states it, fails: \<open>spawn\<close> throws for \<open>A\<close> and would return for
  \<open>B\<close>, yet the pass ends at \<open>A\<close>, \<open>B\<close> is not started in this tick, and a first
  pass ends the supervisor.
\<close>

theorem spawn_failure_not_isolated:
  "os_no_A (spawn_cmd cfg_dev) (spawn_args cfg_dev) (bot_env cfg_dev ''B'' ''2'')
   \<and> reconcile cfg_dev os_no_A (listing [(''A'', ''1''), (''B'', ''2'')]) init =
       (Thrown SpawnFailed, init)
   \<and> spawned (interval_tick cfg_dev os_no_A (listing [(''A'', ''1''), (''B'', ''2'')]) init) = []
   \<and> \<not> map_has ''B''
         (processes (interval_tick cfg_dev os_no_A (listing [(''A'', ''1''), (''B'', ''2'')]) init))
   \<and> snd (main_start cfg_dev os_no_A (listing [(''A'', ''1''), (''B'', ''2'')])) = Some 1"
  by (simp add: init_def main_start_def pass_defs os_no_A_def bot_env_def)

end
